theory Spec2Isabelle
  imports Main "HOL-Library.Sublist"
begin

section \<open>Path strings (posixpath)\<close>

text \<open>
  The program handles paths as Python strings and builds them with \<open>os.path.join\<close>,
  \<open>os.path.splitext\<close> and \<open>os.path.dirname\<close>. These are modelled on \<open>string\<close> as
  posixpath defines them. \<open>rfind\<close> is \<open>str.rfind\<close>: the last index of a character, or
  \<open>-1\<close>.
\<close>

definition sep :: char where
  "sep = CHR ''/''"

definition extsep :: char where
  "extsep = CHR ''.''"

fun rfind :: "string \<Rightarrow> char \<Rightarrow> int" where
  "rfind [] c = - 1"
| "rfind (x # xs) c =
     (let r = rfind xs c in if 0 \<le> r then r + 1 else if x = c then 0 else - 1)"

definition rstrip_sep :: "string \<Rightarrow> string" where
  "rstrip_sep s = rev (dropWhile (\<lambda>c. c = sep) (rev s))"

definition join :: "string \<Rightarrow> string \<Rightarrow> string" where
  "join a b =
     (if b \<noteq> [] \<and> hd b = sep then b
      else if a = [] \<or> last a = sep then a @ b
      else a @ [sep] @ b)"

definition splitext :: "string \<Rightarrow> string \<times> string" where
  "splitext p =
     (let sepIndex = rfind p sep; dotIndex = rfind p extsep in
      if sepIndex < dotIndex \<and>
         list_ex (\<lambda>c. c \<noteq> extsep)
           (take (nat (dotIndex - (sepIndex + 1))) (drop (nat (sepIndex + 1)) p))
      then (take (nat dotIndex) p, drop (nat dotIndex) p)
      else (p, []))"

definition dirname :: "string \<Rightarrow> string" where
  "dirname p =
     (let head = take (nat (rfind p sep + 1)) p in
      if head \<noteq> [] \<and> head \<noteq> replicate (length head) sep then rstrip_sep head else head)"

definition basename :: "string \<Rightarrow> string" where
  "basename p = drop (nat (rfind p sep + 1)) p"

text \<open>\<open>shutil._basename\<close>: the base name with trailing separators ignored.\<close>

definition shutil_basename :: "string \<Rightarrow> string" where
  "shutil_basename p = basename (rstrip_sep p)"

text \<open>\<open>str.lower\<close> on the ASCII letters; every other character is left as it is.\<close>

definition lower_char :: "char \<Rightarrow> char" where
  "lower_char c =
     (case map_of (zip ''ABCDEFGHIJKLMNOPQRSTUVWXYZ'' ''abcdefghijklmnopqrstuvwxyz'') c of
        Some l \<Rightarrow> l
      | None \<Rightarrow> c)"

definition lower :: "string \<Rightarrow> string" where
  "lower s = map lower_char s"

text \<open>The decimal numeral of a counter, as the f-string \<open>f"{counter}"\<close> prints it.\<close>

definition digit_char :: "nat \<Rightarrow> char" where
  "digit_char d = ''0123456789'' ! d"

fun str_nat :: "nat \<Rightarrow> string" where
  "str_nat n = (if n < 10 then [digit_char n] else str_nat (n div 10) @ [digit_char (n mod 10)])"

declare str_nat.simps [simp del]

section \<open>The directory tree\<close>

text \<open>
  The file system is a finite table from resolved paths (lists of component names, read
  from the root) to nodes; the root is the empty path and is always a directory. The order
  of the table is the order in which a directory lists its entries, which the program
  takes as it comes. A path string is resolved by splitting it at the separator and
  dropping empty components and \<open>.\<close>; the model has no symbolic links and reads a
  relative path from the root.

  This resolution is the one of the operating system on the path strings that \<open>path_ok\<close>
  (below) admits: strings with no \<open>..\<close> component, in which a trailing separator or a
  trailing \<open>.\<close> component does not follow a regular file. Outside them it is not: the
  system resolves \<open>..\<close> against the tree, and refuses a regular file that is followed by
  a separator. The paths the program builds with \<open>os.path.join\<close> from such a directory
  and a listed name are of this kind again (\<open>path_ok_join\<close>), and the theorems about a
  call that is handed a path assume it of that path.
\<close>

type_synonym path = "string list"

datatype node = File string | Dir

type_synonym filesystem = "(path \<times> node) list"

datatype error =
    FileNotFoundError
  | FileExistsError
  | NotADirectoryError
  | IsADirectoryError
  | OSError
  | ShutilError

primrec splitc :: "string \<Rightarrow> string list" where
  "splitc [] = [[]]"
| "splitc (c # cs) =
     (if c = sep then [] # splitc cs
      else (case splitc cs of [] \<Rightarrow> [[c]] | w # ws \<Rightarrow> (c # w) # ws))"

definition resolve :: "string \<Rightarrow> path" where
  "resolve p = filter (\<lambda>w. w \<noteq> [] \<and> w \<noteq> ''.'') (splitc p)"

definition lookup :: "filesystem \<Rightarrow> path \<Rightarrow> node option" where
  "lookup fs q = (if q = [] then Some Dir else map_of fs q)"

text \<open>
  A directory lists the names of the entries directly below it. As on every POSIX system
  a name is not empty, is neither \<open>.\<close> nor \<open>..\<close>, and holds no separator.
\<close>

definition valid_name :: "string \<Rightarrow> bool" where
  "valid_name n = (n \<noteq> [] \<and> sep \<notin> set n \<and> n \<noteq> ''.'' \<and> n \<noteq> ''..'')"

definition children :: "filesystem \<Rightarrow> path \<Rightarrow> string list" where
  "children fs q =
     map (last \<circ> fst)
       (filter (\<lambda>(k, n). k \<noteq> [] \<and> butlast k = q \<and> valid_name (last k)) fs)"

definition os_path_exists :: "filesystem \<Rightarrow> string \<Rightarrow> bool" where
  "os_path_exists fs p = (p \<noteq> [] \<and> lookup fs (resolve p) \<noteq> None)"

definition os_path_isdir :: "filesystem \<Rightarrow> string \<Rightarrow> bool" where
  "os_path_isdir fs p = (p \<noteq> [] \<and> lookup fs (resolve p) = Some Dir)"

definition os_path_isfile :: "filesystem \<Rightarrow> string \<Rightarrow> bool" where
  "os_path_isfile fs p =
     (p \<noteq> [] \<and> (case lookup fs (resolve p) of Some (File c) \<Rightarrow> True | _ \<Rightarrow> False))"

text \<open>
  The path strings on which the model resolves a path as the operating system does.
\<close>

definition path_ok :: "filesystem \<Rightarrow> string \<Rightarrow> bool" where
  "path_ok fs p =
     (''..'' \<notin> set (splitc p) \<and>
      \<not> ((last (splitc p) = [] \<or> last (splitc p) = ''.'') \<and>
         (case lookup fs (resolve p) of Some (File c) \<Rightarrow> True | _ \<Rightarrow> False)))"

definition os_listdir :: "filesystem \<Rightarrow> string \<Rightarrow> error + string list" where
  "os_listdir fs p =
     (if p = [] then Inl FileNotFoundError
      else case lookup fs (resolve p) of
        None \<Rightarrow> Inl FileNotFoundError
      | Some (File c) \<Rightarrow> Inl NotADirectoryError
      | Some Dir \<Rightarrow> Inr (children fs (resolve p)))"


text \<open>
  \<open>os.makedirs\<close>: every missing ancestor is created from the root down, then the
  directory itself. An ancestor that is a file raises \<open>NotADirectoryError\<close>; the path
  existing already raises \<open>FileExistsError\<close>, unless it is a directory and \<open>exist_ok\<close>
  is set.
\<close>

fun ensure_dirs :: "filesystem \<Rightarrow> path \<Rightarrow> string list \<Rightarrow> error + filesystem" where
  "ensure_dirs fs pre [] = Inr fs"
| "ensure_dirs fs pre (x # xs) =
     (case lookup fs (pre @ [x]) of
        None \<Rightarrow> ensure_dirs (fs @ [(pre @ [x], Dir)]) (pre @ [x]) xs
      | Some (File c) \<Rightarrow> Inl NotADirectoryError
      | Some Dir \<Rightarrow> ensure_dirs fs (pre @ [x]) xs)"

definition os_makedirs :: "filesystem \<Rightarrow> string \<Rightarrow> bool \<Rightarrow> error + filesystem" where
  "os_makedirs fs name exist_ok =
     (if name = [] then Inl FileNotFoundError
      else case ensure_dirs fs [] (butlast (resolve name)) of
        Inl e \<Rightarrow> Inl e
      | Inr fs1 \<Rightarrow>
          (case lookup fs1 (resolve name) of
             None \<Rightarrow> Inr (fs1 @ [(resolve name, Dir)])
           | Some (File c) \<Rightarrow> Inl FileExistsError
           | Some Dir \<Rightarrow> if exist_ok then Inr fs1 else Inl FileExistsError))"

text \<open>\<open>os.rmdir\<close> removes an empty directory and nothing else.\<close>

definition os_rmdir :: "filesystem \<Rightarrow> string \<Rightarrow> error + filesystem" where
  "os_rmdir fs p =
     (if p = [] then Inl FileNotFoundError
      else case lookup fs (resolve p) of
        None \<Rightarrow> Inl FileNotFoundError
      | Some (File c) \<Rightarrow> Inl NotADirectoryError
      | Some Dir \<Rightarrow>
          if resolve p = [] \<or> children fs (resolve p) \<noteq> [] then Inl OSError
          else Inr (filter (\<lambda>(k, n). k \<noteq> resolve p) fs))"

text \<open>
  \<open>os.rename\<close> on one device: the entry at \<open>a\<close>, with everything below it, moves to
  \<open>b\<close>. A file replaces a file at \<open>b\<close>, a directory replaces an empty directory.
\<close>

definition move_entries :: "path \<Rightarrow> path \<Rightarrow> filesystem \<Rightarrow> filesystem" where
  "move_entries a b fs =
     map (\<lambda>(k, n). if prefix a k then (b @ drop (length a) k, n) else (k, n))
       (filter (\<lambda>(k, n). k \<noteq> b) fs)"

definition os_rename :: "filesystem \<Rightarrow> string \<Rightarrow> string \<Rightarrow> error + filesystem" where
  "os_rename fs src dst =
     (if src = [] \<or> dst = [] then Inl FileNotFoundError
      else case lookup fs (resolve src) of
        None \<Rightarrow> Inl FileNotFoundError
      | Some na \<Rightarrow>
          (case lookup fs (butlast (resolve dst)) of
             None \<Rightarrow> Inl FileNotFoundError
           | Some (File c) \<Rightarrow> Inl NotADirectoryError
           | Some Dir \<Rightarrow>
               if resolve src = resolve dst then Inr fs
               else if resolve src = [] \<or> resolve dst = [] \<or> prefix (resolve src) (resolve dst)
               then Inl OSError
               else (case (na, lookup fs (resolve dst)) of
                  (File c, Some Dir) \<Rightarrow> Inl IsADirectoryError
                | (Dir, Some (File c)) \<Rightarrow> Inl NotADirectoryError
                | (Dir, Some Dir) \<Rightarrow>
                    if children fs (resolve dst) \<noteq> [] then Inl OSError
                    else Inr (move_entries (resolve src) (resolve dst) fs)
                | _ \<Rightarrow> Inr (move_entries (resolve src) (resolve dst) fs))))"

text \<open>
  \<open>shutil.move\<close>: when the destination is an existing directory the source is moved
  into it, under its own base name, and a name taken there is an error; otherwise the
  source is renamed to the destination. (On one device the copy that \<open>shutil.move\<close>
  falls back to after a failed rename fails as the rename did.)
\<close>

definition samefile :: "filesystem \<Rightarrow> string \<Rightarrow> string \<Rightarrow> bool" where
  "samefile fs src dst =
     (os_path_exists fs src \<and> os_path_exists fs dst \<and> resolve src = resolve dst)"

definition shutil_move :: "filesystem \<Rightarrow> string \<Rightarrow> string \<Rightarrow> error + filesystem" where
  "shutil_move fs src dst =
     (if os_path_isdir fs dst then
        (if samefile fs src dst then os_rename fs src dst
         else if os_path_exists fs (join dst (shutil_basename src)) then Inl ShutilError
         else os_rename fs src (join dst (shutil_basename src)))
      else os_rename fs src dst)"


section \<open>The unique-path generator\<close>

text \<open>
  The loop of \<open>_get_unique_path\<close> counts upwards until a candidate is free. It ends
  because the table is finite: a candidate that exists is a path of the table, so the
  numeral in it is no longer than the table's names.
\<close>

definition fs_size :: "filesystem \<Rightarrow> nat" where
  "fs_size fs = sum_list (map (\<lambda>(k, n). sum_list (map length k)) fs)"

lemma str_nat_bound: "n < 10 ^ length (str_nat n)"
proof (induction n rule: str_nat.induct)
  case (1 n)
  show ?case
  proof (cases "n < 10")
    case True
    then show ?thesis by (subst str_nat.simps) simp
  next
    case False
    with 1 have "n div 10 < 10 ^ length (str_nat (n div 10))" by simp
    then have "n < 10 * 10 ^ length (str_nat (n div 10))" by simp
    with False show ?thesis by (subst str_nat.simps) simp
  qed
qed

lemma digit_char_not_sep: "d < 10 \<Longrightarrow> digit_char d \<noteq> sep"
proof -
  assume "d < 10"
  then have "d \<in> {0,1,2,3,4,5,6,7,8,9}" by auto
  then show ?thesis by (auto simp: digit_char_def sep_def)
qed

lemma str_nat_no_sep: "sep \<notin> set (str_nat n)"
proof (induction n rule: str_nat.induct)
  case (1 n)
  show ?case
  proof (cases "n < 10")
    case True
    then show ?thesis using digit_char_not_sep[of n] by (subst str_nat.simps) simp
  next
    case False
    with 1 have "sep \<notin> set (str_nat (n div 10))" by simp
    moreover have "digit_char (n mod 10) \<noteq> sep" by (rule digit_char_not_sep) simp
    ultimately show ?thesis using False by (subst str_nat.simps) simp
  qed
qed

lemma splitc_not_Nil [simp]: "splitc s \<noteq> []"
  by (induction s) (auto split: list.splits)

lemma splitc_no_sep: "sep \<notin> set t \<Longrightarrow> splitc t = [t]"
  by (induction t) (auto split: list.splits)

lemma splitc_append:
  "splitc (x @ y) = butlast (splitc x) @ [last (splitc x) @ hd (splitc y)] @ tl (splitc y)"
proof (induction x)
  case Nil
  then show ?case by (cases "splitc y") auto
next
  case (Cons c x)
  then show ?case by (cases "splitc x") (auto split: list.splits)
qed

lemma splitc_middle:
  assumes "sep \<notin> set t"
  shows "\<exists>u v. u @ t @ v \<in> set (splitc (a @ t @ b))"
proof -
  have "hd (splitc (t @ b)) = t @ hd (splitc b)"
    using assms by (simp add: splitc_append[of t b] splitc_no_sep)
  then have "last (splitc a) @ t @ hd (splitc b) \<in> set (splitc (a @ t @ b))"
    by (simp add: splitc_append[of a "t @ b"])
  then show ?thesis by blast
qed

lemma resolve_middle:
  assumes "sep \<notin> set t" "t \<noteq> []" "t \<noteq> ''.''"
  shows "\<exists>w \<in> set (resolve (a @ t @ b)). length t \<le> length w"
proof -
  obtain u v where uv: "u @ t @ v \<in> set (splitc (a @ t @ b))"
    using splitc_middle[OF assms(1)] by blast
  have "u @ t @ v \<noteq> []" using assms(2) by simp
  moreover have "u @ t @ v \<noteq> ''.''"
  proof
    assume e: "u @ t @ v = ''.''"
    then have "length u + length t + length v = 1"
      by (metis length_append add.assoc length_Cons list.size(3) One_nat_def)
    with assms(2) have "u = []" "v = []" by (cases t; auto)+
    with e assms(3) show False by simp
  qed
  ultimately have "u @ t @ v \<in> set (resolve (a @ t @ b))"
    using uv by (simp add: resolve_def)
  then show ?thesis by (intro bexI[of _ "u @ t @ v"]) auto
qed

lemma fs_size_bound:
  assumes "(k, n) \<in> set fs" "w \<in> set k"
  shows "length w \<le> fs_size fs"
proof -
  have a: "length w \<le> sum_list (map length k)"
    using assms(2) by (induction k) auto
  have "sum_list (map length k) \<le> fs_size fs"
    unfolding fs_size_def using assms(1) by (induction fs) auto
  with a show ?thesis by simp
qed

lemma exists_candidate_bound:
  assumes "os_path_exists fs (base @ ''_'' @ str_nat counter @ ext)"
  shows "counter < 10 ^ fs_size fs"
proof -
  let ?t = "''_'' @ str_nat counter"
  have t: "sep \<notin> set ?t" "?t \<noteq> []" "?t \<noteq> ''.''"
    using str_nat_no_sep[of counter] by (auto simp: sep_def)
  obtain w where w: "w \<in> set (resolve (base @ ?t @ ext))" "length ?t \<le> length w"
    using resolve_middle[OF t, of base ext] by blast
  from assms w(1) obtain n where "(resolve (base @ ?t @ ext), n) \<in> set fs"
    by (auto simp: os_path_exists_def lookup_def split: if_splits dest: map_of_SomeD)
  then have "length w \<le> fs_size fs" using w(1) by (rule fs_size_bound)
  with w(2) have "length (str_nat counter) < fs_size fs" by simp
  then have "(10::nat) ^ length (str_nat counter) \<le> 10 ^ fs_size fs" by simp
  with str_nat_bound[of counter] show ?thesis by linarith
qed

function unique_loop :: "filesystem \<Rightarrow> string \<Rightarrow> string \<Rightarrow> nat \<Rightarrow> string" where
  "unique_loop fs base ext counter =
     (if os_path_exists fs (base @ ''_'' @ str_nat counter @ ext)
      then unique_loop fs base ext (counter + 1)
      else base @ ''_'' @ str_nat counter @ ext)"
  by pat_completeness auto
termination
proof (relation "measure (\<lambda>(fs, base, ext, counter). 10 ^ fs_size fs - counter)", goal_cases)
  case 1
  show ?case by simp
next
  case (2 fs base ext counter)
  from exists_candidate_bound[OF 2] show ?case by simp
qed

declare unique_loop.simps [simp del]

definition get_unique_path :: "filesystem \<Rightarrow> string \<Rightarrow> string" where
  "get_unique_path fs file_path =
     (if \<not> os_path_exists fs file_path then file_path
      else case splitext file_path of (base, ext) \<Rightarrow> unique_loop fs base ext 1)"

section \<open>The category resolver\<close>

text \<open>
  \<open>file_types\<close> is the dictionary of \<open>__init__\<close>, in the order it is written (a Python
  dictionary iterates in insertion order). \<open>find_category\<close> is the inner loop of
  \<open>organize_by_type\<close>: the first category whose list holds the lowered extension, and
  \<open>others\<close> when the loop ends without a \<open>break\<close>.
\<close>

definition file_types :: "(string \<times> string list) list" where
  "file_types =
     [(''images'', [''.jpg'', ''.jpeg'', ''.png'', ''.gif'', ''.bmp'', ''.tiff'', ''.heic'', ''.raw'']),
      (''documents'', [''.pdf'', ''.doc'', ''.docx'', ''.txt'', ''.rtf'', ''.odt'', ''.pages'']),
      (''spreadsheets'', [''.xls'', ''.xlsx'', ''.numbers'', ''.csv'']),
      (''presentations'', [''.ppt'', ''.pptx'', ''.key'']),
      (''videos'', [''.mp4'', ''.mov'', ''.avi'', ''.wmv'', ''.flv'', ''.mkv'']),
      (''audio'', [''.mp3'', ''.wav'', ''.aac'', ''.m4a'', ''.flac'']),
      (''archives'', [''.zip'', ''.rar'', ''.7z'', ''.tar'', ''.gz'']),
      (''code'', [''.py'', ''.java'', ''.cpp'', ''.js'', ''.html'', ''.css'', ''.php'', ''.c'', ''.ts'']),
      (''others'', [])]"

fun find_category :: "(string \<times> string list) list \<Rightarrow> string \<Rightarrow> string" where
  "find_category [] ext = ''others''"
| "find_category ((file_type, extensions) # rest) ext =
     (if lower ext \<in> set extensions then file_type else find_category rest ext)"

definition category_of :: "string \<Rightarrow> string" where
  "category_of file = find_category file_types (snd (splitext file))"


section \<open>The operation log\<close>

text \<open>
  A move record and an operation batch are the dictionaries the program builds, with
  their keys as fields. The organizer's state is the directory tree, the two log files
  and the two attributes \<open>history\<close> and \<open>last_operation\<close>. The log files live in the
  script's own directory; the model keeps them apart from the tree, so it covers the runs
  in which the tree being organized does not hold them. The history file is absent,
  unreadable as JSON (\<open>Corrupt\<close>), or holds a list of batches. The timeline file is the
  list of the entries appended to it (its header text is not modelled), and the time
  stamp of an operation is an argument \<open>now\<close>.
\<close>

record move_record =
  mv_operation :: string
  mv_source :: string
  mv_destination :: string

record operation_batch =
  op_timestamp :: string
  op_type :: string
  op_source_dir :: string
  op_target_dir :: string
  op_operations :: "move_record list"

datatype stored_history = Absent | Corrupt | Stored "operation_batch list"

datatype timeline_entry =
    UndoEntry string string
  | OrganizeEntry string string nat string

record organizer =
  disk :: filesystem
  history_file :: stored_history
  timeline_file :: "timeline_entry list"
  history :: "operation_batch list"
  last_operation :: "operation_batch option"

definition load_history :: "organizer \<Rightarrow> organizer" where
  "load_history s =
     (case history_file s of
        Absent \<Rightarrow> s
      | Corrupt \<Rightarrow> s\<lparr>history := [], last_operation := None\<rparr>
      | Stored h \<Rightarrow>
          s\<lparr>history := h,
            last_operation := (if h \<noteq> [] then Some (last h) else last_operation s)\<rparr>)"

definition save_history :: "organizer \<Rightarrow> organizer" where
  "save_history s =
     s\<lparr>history_file :=
         Stored (case last_operation s of Some operation \<Rightarrow> [operation] | None \<Rightarrow> [])\<rparr>"

definition update_timeline :: "operation_batch \<Rightarrow> organizer \<Rightarrow> organizer" where
  "update_timeline operation s =
     s\<lparr>timeline_file := timeline_file s @
         [if op_type operation = ''undo''
          then UndoEntry (op_timestamp operation) (op_target_dir operation)
          else OrganizeEntry (op_timestamp operation) (op_type operation)
                 (length (op_operations operation)) (op_target_dir operation)]\<rparr>"

definition record_operation ::
  "string \<Rightarrow> string \<Rightarrow> string \<Rightarrow> string \<Rightarrow> move_record list \<Rightarrow> organizer \<Rightarrow> organizer" where
  "record_operation now type source_dir target_dir operations s =
     (let operation = \<lparr>op_timestamp = now, op_type = type, op_source_dir = source_dir,
                        op_target_dir = target_dir, op_operations = operations\<rparr>
      in update_timeline operation
           (if type \<noteq> ''undo''
            then save_history (s\<lparr>history := [operation], last_operation := Some operation\<rparr>)
            else s))"

section \<open>The organizer\<close>

text \<open>
  An exception is the left summand of the result; the tree is returned beside it as it
  stands when the exception leaves the function. \<open>organize_file\<close> is the body of the loop
  over the files, \<open>organize_loop\<close> the loop: the first exception ends it.
  \<open>organize_by_type\<close> has no \<open>return\<close> statement, so the value of a call that does not
  raise is \<open>None\<close>.
\<close>

definition organize_file ::
  "filesystem \<Rightarrow> string \<Rightarrow> string \<Rightarrow> string \<Rightarrow> (error + move_record) \<times> filesystem" where
  "organize_file fs source_dir target_dir file =
     (let file_path = join source_dir file;
          category = find_category file_types (snd (splitext file));
          category_dir = join target_dir category
      in case os_makedirs fs category_dir True of
           Inl e \<Rightarrow> (Inl e, fs)
         | Inr fs1 \<Rightarrow>
             (let new_path = get_unique_path fs1 (join category_dir file)
              in case shutil_move fs1 file_path new_path of
                   Inl e \<Rightarrow> (Inl e, fs1)
                 | Inr fs2 \<Rightarrow>
                     (Inr \<lparr>mv_operation = ''move'', mv_source = file_path,
                           mv_destination = new_path\<rparr>, fs2)))"

fun organize_loop ::
  "filesystem \<Rightarrow> string \<Rightarrow> string \<Rightarrow> string list \<Rightarrow> move_record list
     \<Rightarrow> (error + move_record list) \<times> filesystem" where
  "organize_loop fs source_dir target_dir [] operations = (Inr operations, fs)"
| "organize_loop fs source_dir target_dir (file # files) operations =
     (case organize_file fs source_dir target_dir file of
        (Inl e, fs1) \<Rightarrow> (Inl e, fs1)
      | (Inr r, fs1) \<Rightarrow> organize_loop fs1 source_dir target_dir files (operations @ [r]))"

definition organize_by_type ::
  "string \<Rightarrow> organizer \<Rightarrow> string \<Rightarrow> string option
     \<Rightarrow> (error + operation_batch option) \<times> organizer" where
  "organize_by_type now s source_dir dest_dir =
     (if \<not> os_path_exists (disk s) source_dir then (Inl FileNotFoundError, s)
      else
        let target_dir = (case dest_dir of
                            None \<Rightarrow> source_dir
                          | Some d \<Rightarrow> if d \<noteq> [] then d else source_dir)
        in case (if \<not> os_path_exists (disk s) target_dir
                 then os_makedirs (disk s) target_dir False else Inr (disk s)) of
             Inl e \<Rightarrow> (Inl e, s)
           | Inr fs1 \<Rightarrow>
               (case os_listdir fs1 source_dir of
                  Inl e \<Rightarrow> (Inl e, s\<lparr>disk := fs1\<rparr>)
                | Inr names \<Rightarrow>
                    (case organize_loop fs1 source_dir target_dir
                            (filter (\<lambda>f. os_path_isfile fs1 (join source_dir f)) names) [] of
                       (Inl e, fs2) \<Rightarrow> (Inl e, s\<lparr>disk := fs2\<rparr>)
                     | (Inr operations, fs2) \<Rightarrow>
                         (Inr None,
                          record_operation now ''organize_by_type'' source_dir target_dir
                            operations (s\<lparr>disk := fs2\<rparr>)))))"


section \<open>The undo engine\<close>

text \<open>
  \<open>restore_op\<close> is the body of the loop over the reversed records, \<open>restore_loop\<close> the
  loop; an exception ends it and is caught by the \<open>except Exception\<close> of
  \<open>undo_last_operation\<close>.
\<close>

definition restore_op :: "filesystem \<Rightarrow> move_record \<Rightarrow> (error + unit) \<times> filesystem" where
  "restore_op fs r =
     (if os_path_exists fs (mv_destination r) then
        (case os_makedirs fs (dirname (mv_source r)) True of
           Inl e \<Rightarrow> (Inl e, fs)
         | Inr fs1 \<Rightarrow>
             (case shutil_move fs1 (mv_destination r) (mv_source r) of
                Inl e \<Rightarrow> (Inl e, fs1)
              | Inr fs2 \<Rightarrow> (Inr (), fs2)))
      else (Inr (), fs))"

fun restore_loop :: "filesystem \<Rightarrow> move_record list \<Rightarrow> (error + unit) \<times> filesystem" where
  "restore_loop fs [] = (Inr (), fs)"
| "restore_loop fs (r # rs) =
     (case restore_op fs r of
        (Inl e, fs1) \<Rightarrow> (Inl e, fs1)
      | (Inr u, fs1) \<Rightarrow> restore_loop fs1 rs)"

text \<open>
  The clean-up walks the target directory with \<open>os.walk(target_dir, topdown=False)\<close>.
  The walk is \<open>os.walk\<close>'s own loop over a stack: a directory taken from the stack is
  listed (a directory that cannot be listed yields nothing), its triple is put back on
  the stack below the directories found in it, and a triple taken from the stack is
  handed to the body of the \<open>for\<close> loop. The body removes each listed directory that
  is empty at that moment; an \<open>OSError\<close> skips the directory.
\<close>

datatype walk_item = Visit string | Yield string "string list" "string list"

definition scandir :: "filesystem \<Rightarrow> string \<Rightarrow> error + (string list \<times> string list)" where
  "scandir fs topdir =
     (case os_listdir fs topdir of
        Inl e \<Rightarrow> Inl e
      | Inr names \<Rightarrow>
          Inr (filter (\<lambda>n. os_path_isdir fs (join topdir n)) names,
               filter (\<lambda>n. \<not> os_path_isdir fs (join topdir n)) names))"

definition remove_if_empty :: "filesystem \<Rightarrow> string \<Rightarrow> filesystem" where
  "remove_if_empty fs dir_path =
     (case os_listdir fs dir_path of
        Inl e \<Rightarrow> fs
      | Inr names \<Rightarrow>
          if names = [] then (case os_rmdir fs dir_path of Inl e \<Rightarrow> fs | Inr fs1 \<Rightarrow> fs1)
          else fs)"

definition cleanup_dirs :: "filesystem \<Rightarrow> string \<Rightarrow> string list \<Rightarrow> filesystem" where
  "cleanup_dirs fs root dirs =
     fold (\<lambda>dir_name fs1. remove_if_empty fs1 (join root dir_name)) dirs fs"

definition fs_depth :: "filesystem \<Rightarrow> nat" where
  "fs_depth fs = Max (set (0 # map (length \<circ> fst) fs))"

fun item_weight :: "filesystem \<Rightarrow> walk_item \<Rightarrow> nat" where
  "item_weight fs (Visit topdir) = (length fs + 2) ^ (fs_depth fs + 1 - length (resolve topdir))"
| "item_weight fs (Yield root dirs files) = 1"

definition stack_weight :: "filesystem \<Rightarrow> walk_item list \<Rightarrow> nat" where
  "stack_weight fs st = sum_list (map (item_weight fs) st)"

lemma splitc_sep: "splitc (x @ sep # y) = splitc x @ splitc y"
  by (induction x) (auto split: list.splits)

lemma splitc_snoc_sep:
  assumes "x \<noteq> []" "last x = sep"
  shows "last (splitc x) = []"
proof -
  from assms have "x = butlast x @ sep # []" by (metis append_butlast_last_id)
  then have "splitc x = splitc (butlast x) @ splitc []" by (metis splitc_sep)
  then show ?thesis by simp
qed

lemma resolve_join:
  assumes "valid_name d"
  shows "resolve (join topdir d) = resolve topdir @ [d]"
proof -
  from assms have d: "d \<noteq> []" "sep \<notin> set d" "d \<noteq> ''.''" "hd d \<noteq> sep"
    by (auto simp: valid_name_def) (cases d; auto)
  have sd: "splitc d = [d]" using d(2) by (rule splitc_no_sep)
  show ?thesis
  proof (cases "topdir = [] \<or> last topdir = sep")
    case True
    then have j: "join topdir d = topdir @ d" using d by (simp add: join_def)
    show ?thesis
    proof (cases "topdir = []")
      case True
      then show ?thesis using d sd by (simp add: join_def resolve_def)
    next
      case False
      with True have "last (splitc topdir) = []" by (simp add: splitc_snoc_sep)
      then obtain bs where bs: "splitc topdir = bs @ [[]]"
        by (metis append_butlast_last_id splitc_not_Nil)
      have "splitc (topdir @ d) = bs @ [d]"
        using bs sd by (simp add: splitc_append)
      then show ?thesis using bs d j by (simp add: resolve_def)
    qed
  next
    case False
    then have j: "join topdir d = topdir @ sep # d" using d by (simp add: join_def)
    show ?thesis using d sd by (simp add: j splitc_sep resolve_def)
  qed
qed

lemma splitc_join:
  assumes "valid_name d"
  shows "last (splitc (join topdir d)) = d
       \<and> set (splitc (join topdir d)) \<subseteq> insert d (set (splitc topdir))"
proof -
  from assms have d: "d \<noteq> []" "sep \<notin> set d" "hd d \<noteq> sep"
    by (auto simp: valid_name_def) (cases d; auto)
  have sd: "splitc d = [d]" using d(2) by (rule splitc_no_sep)
  show ?thesis
  proof (cases "topdir = [] \<or> last topdir = sep")
    case True
    then have j: "join topdir d = topdir @ d" using d by (simp add: join_def)
    show ?thesis
    proof (cases "topdir = []")
      case True
      then show ?thesis using d sd by (simp add: join_def)
    next
      case False
      with True have "last (splitc topdir) = []" by (simp add: splitc_snoc_sep)
      then obtain bs where bs: "splitc topdir = bs @ [[]]"
        by (metis append_butlast_last_id splitc_not_Nil)
      have "splitc (topdir @ d) = bs @ [d]"
        using bs sd by (simp add: splitc_append)
      then show ?thesis using bs j by auto
    qed
  next
    case False
    then have j: "join topdir d = topdir @ sep # d" using d by (simp add: join_def)
    show ?thesis using sd by (auto simp: j splitc_sep)
  qed
qed

text \<open>
  A path joined from a directory with no \<open>..\<close> component and a listed name has no \<open>..\<close>
  component and ends with that name: the model resolves it as the system does.
\<close>

lemma path_ok_join:
  assumes "''..'' \<notin> set (splitc topdir)" "valid_name d"
  shows "path_ok fs (join topdir d)"
proof -
  from splitc_join[OF assms(2), of topdir]
  have l: "last (splitc (join topdir d)) = d"
    and s: "set (splitc (join topdir d)) \<subseteq> insert d (set (splitc topdir))" by simp_all
  from assms(2) have d: "d \<noteq> []" "d \<noteq> ''.''" "d \<noteq> ''..''" by (auto simp: valid_name_def)
  from s assms(1) d(3) have "''..'' \<notin> set (splitc (join topdir d))" by auto
  with l d show ?thesis by (simp add: path_ok_def)
qed

lemma children_member:
  "d \<in> set (children fs q) \<Longrightarrow> valid_name d \<and> (\<exists>n. (q @ [d], n) \<in> set fs)"
  by (auto simp: children_def)

lemma fs_depth_bound: "(k, n) \<in> set fs \<Longrightarrow> length k \<le> fs_depth fs"
  unfolding fs_depth_def by (intro Max_ge) (auto intro!: image_eqI[of _ _ "(k, n)"])

lemma fs_depth_mono: "set fs1 \<subseteq> set fs \<Longrightarrow> fs_depth fs1 \<le> fs_depth fs"
  unfolding fs_depth_def by (intro Max_mono) auto

lemma remove_if_empty_shrinks:
  "set (remove_if_empty fs p) \<subseteq> set fs \<and> length (remove_if_empty fs p) \<le> length fs"
  by (auto simp: remove_if_empty_def os_rmdir_def split: sum.splits if_splits option.splits node.splits)

lemma cleanup_dirs_shrinks:
  "set (cleanup_dirs fs root dirs) \<subseteq> set fs \<and> length (cleanup_dirs fs root dirs) \<le> length fs"
  unfolding cleanup_dirs_def
proof (induction dirs arbitrary: fs)
  case Nil
  then show ?case by simp
next
  case (Cons d dirs)
  show ?case
    using Cons.IH[of "remove_if_empty fs (join root d)"] remove_if_empty_shrinks[of fs "join root d"]
    by auto
qed

lemma item_weight_mono:
  assumes "set fs1 \<subseteq> set fs" "length fs1 \<le> length fs"
  shows "item_weight fs1 i \<le> item_weight fs i"
proof (cases i)
  case (Visit topdir)
  have "(length fs1 + 2) ^ (fs_depth fs1 + 1 - length (resolve topdir))
        \<le> (length fs + 2) ^ (fs_depth fs1 + 1 - length (resolve topdir))"
    using assms(2) by (intro power_mono) auto
  also have "\<dots> \<le> (length fs + 2) ^ (fs_depth fs + 1 - length (resolve topdir))"
    using fs_depth_mono[OF assms(1)] by (intro power_increasing) auto
  finally show ?thesis using Visit by simp
qed simp

lemma stack_weight_mono:
  assumes "set fs1 \<subseteq> set fs" "length fs1 \<le> length fs"
  shows "stack_weight fs1 st \<le> stack_weight fs st"
  unfolding stack_weight_def
  by (induction st) (auto intro: add_mono item_weight_mono[OF assms])

lemma item_weight_pos: "0 < item_weight fs i"
  by (cases i) auto

lemma scandir_weight:
  assumes "scandir fs topdir = Inr (dirs, nondirs)"
  shows "stack_weight fs (map (\<lambda>d. Visit (join topdir d)) dirs) + 1 < item_weight fs (Visit topdir)"
proof -
  let ?q = "resolve topdir"
  let ?N = "length fs + 2"
  from assms have dir: "lookup fs ?q = Some Dir" and ds: "set dirs \<subseteq> set (children fs ?q)"
    and len: "length dirs \<le> length (children fs ?q)"
    by (auto simp: scandir_def os_listdir_def split: sum.splits if_splits option.splits node.splits)
  have lq: "length ?q \<le> fs_depth fs"
  proof (cases "?q = []")
    case False
    with dir have "(?q, Dir) \<in> set fs" by (auto simp: lookup_def dest: map_of_SomeD)
    then show ?thesis by (rule fs_depth_bound)
  qed simp
  have each: "item_weight fs (Visit (join topdir d)) = ?N ^ (fs_depth fs - length ?q)"
    if "d \<in> set dirs" for d
  proof -
    from that ds have "valid_name d" using children_member by blast
    then show ?thesis by (simp add: resolve_join)
  qed
  have "stack_weight fs (map (\<lambda>d. Visit (join topdir d)) dirs)
        = sum_list (map (\<lambda>d. ?N ^ (fs_depth fs - length ?q)) dirs)"
    unfolding stack_weight_def map_map comp_def
    by (rule arg_cong[of _ _ sum_list], rule map_cong) (use each in auto)
  also have "\<dots> = length dirs * ?N ^ (fs_depth fs - length ?q)"
    by (simp add: sum_list_triv)
  also have "\<dots> \<le> length fs * ?N ^ (fs_depth fs - length ?q)"
    using len by (intro mult_right_mono) (auto simp: children_def intro: le_trans[OF _ length_filter_le])
  finally have le: "stack_weight fs (map (\<lambda>d. Visit (join topdir d)) dirs)
                      \<le> length fs * ?N ^ (fs_depth fs - length ?q)" .
  have one: "1 \<le> ?N ^ (fs_depth fs - length ?q)" by simp
  have "?N * ?N ^ (fs_depth fs - length ?q)
        = length fs * ?N ^ (fs_depth fs - length ?q) + 2 * ?N ^ (fs_depth fs - length ?q)"
    by (simp add: algebra_simps)
  with le one have "stack_weight fs (map (\<lambda>d. Visit (join topdir d)) dirs) + 1
                 < ?N * ?N ^ (fs_depth fs - length ?q)"
    by linarith
  moreover have "fs_depth fs + 1 - length ?q = Suc (fs_depth fs - length ?q)"
    using lq by simp
  ultimately show ?thesis by simp
qed

function walk_cleanup :: "walk_item list \<Rightarrow> filesystem \<Rightarrow> filesystem" where
  "walk_cleanup [] fs = fs"
| "walk_cleanup (Yield root dirs files # st) fs = walk_cleanup st (cleanup_dirs fs root dirs)"
| "walk_cleanup (Visit topdir # st) fs =
     (case scandir fs topdir of
        Inl e \<Rightarrow> walk_cleanup st fs
      | Inr (dirs, nondirs) \<Rightarrow>
          walk_cleanup (map (\<lambda>d. Visit (join topdir d)) dirs @ Yield topdir dirs nondirs # st) fs)"
  by pat_completeness auto
termination
proof (relation "measure (\<lambda>(st, fs). stack_weight fs st)", goal_cases)
  case 1
  show ?case by simp
next
  case (2 root dirs files st fs)
  show ?case
    using stack_weight_mono[of "cleanup_dirs fs root dirs" fs st] cleanup_dirs_shrinks[of fs root dirs]
    by (simp add: stack_weight_def)
next
  case (3 topdir st fs e)
  show ?case using item_weight_pos[of fs "Visit topdir"] by (simp add: stack_weight_def)
next
  case (4 topdir st fs x dirs nondirs)
  then have "scandir fs topdir = Inr (dirs, nondirs)" by simp
  from scandir_weight[OF this] show ?case by (simp add: stack_weight_def)
qed


declare walk_cleanup.simps [simp del]

definition undo_last_operation :: "string \<Rightarrow> organizer \<Rightarrow> bool \<times> organizer" where
  "undo_last_operation now s0 =
     (let s = load_history s0 in
      case history s of
        [] \<Rightarrow> (False, s)
      | last_op # rest \<Rightarrow>
          (case restore_loop (disk s) (rev (op_operations last_op)) of
             (Inl e, fs1) \<Rightarrow> (False, s\<lparr>disk := fs1\<rparr>)
           | (Inr u, fs1) \<Rightarrow>
               (let fs2 = walk_cleanup [Visit (op_target_dir last_op)] fs1;
                    undo_op = \<lparr>op_timestamp = now, op_type = ''undo'',
                               op_source_dir = op_source_dir last_op,
                               op_target_dir = op_target_dir last_op,
                               op_operations = []\<rparr>
                in (True,
                    update_timeline undo_op
                      (save_history (s\<lparr>disk := fs2, history := [], last_operation := None\<rparr>))))))"


section \<open>Example states\<close>

definition empty_log_state :: organizer where
  "empty_log_state =
     \<lparr>disk = [([''T''], Dir), ([''T'', ''images''], Dir), ([''T'', ''images'', ''a.jpg''], File ''a'')],
      history_file = Stored [], timeline_file = [], history = [], last_operation = None\<rparr>"


definition scenario_start :: organizer where
  "scenario_start =
     \<lparr>disk = [([''T''], Dir), ([''T'', ''a.jpg''], File ''A''), ([''T'', ''b.txt''], File ''B''),
              ([''T'', ''c.xyz''], File ''C'')],
      history_file = Absent, timeline_file = [], history = [], last_operation = None\<rparr>"

definition blocked_start :: organizer where
  "blocked_start =
     \<lparr>disk = [([''T''], Dir), ([''T'', ''a.jpg''], File ''A''), ([''T'', ''others''], File ''O''),
              ([''T'', ''b.txt''], File ''B'')],
      history_file = Stored [], timeline_file = [], history = [], last_operation = None\<rparr>"

definition two_dirs_start :: organizer where
  "two_dirs_start =
     \<lparr>disk = [([''T''], Dir), ([''T'', ''a.jpg''], File ''A''),
              ([''U''], Dir), ([''U'', ''d.png''], File ''D'')],
      history_file = Absent, timeline_file = [], history = [], last_operation = None\<rparr>"

definition collision_start :: organizer where
  "collision_start =
     \<lparr>disk = [([''S''], Dir), ([''S'', ''a.jpg''], File ''new''),
              ([''D''], Dir), ([''D'', ''images''], Dir),
              ([''D'', ''images'', ''a.jpg''], File ''old'')],
      history_file = Absent, timeline_file = [], history = [], last_operation = None\<rparr>"

definition lost_source_state :: organizer where
  "lost_source_state =
     \<lparr>disk = [([''D''], Dir), ([''D'', ''images''], Dir),
              ([''D'', ''images'', ''a.jpg''], File ''A'')],
      history_file = Stored
        [\<lparr>op_timestamp = ''t1'', op_type = ''organize_by_type'', op_source_dir = ''S'',
          op_target_dir = ''D'',
          op_operations =
            [\<lparr>mv_operation = ''move'', mv_source = ''S/a.jpg'',
               mv_destination = ''D/images/a.jpg''\<rparr>,
             \<lparr>mv_operation = ''move'', mv_source = ''S/gone.txt'',
               mv_destination = ''D/documents/gone.txt''\<rparr>]\<rparr>],
      timeline_file = [OrganizeEntry ''t1'' ''organize_by_type'' 2 ''D''],
      history = [], last_operation = None\<rparr>"

definition cluttered_tree :: filesystem where
  "cluttered_tree =
     [([''T''], Dir), ([''T'', ''old''], Dir), ([''T'', ''a''], Dir), ([''T'', ''a'', ''b''], Dir),
      ([''T'', ''keep''], Dir), ([''T'', ''keep'', ''f.txt''], File ''F''),
      ([''U''], Dir), ([''U'', ''void''], Dir)]"

definition category_name_start :: organizer where
  "category_name_start =
     \<lparr>disk = [([''T''], Dir), ([''T'', ''images''], File ''notes''),
              ([''T'', ''x.jpg''], File ''X'')],
      history_file = Absent, timeline_file = [], history = [], last_operation = None\<rparr>"

section \<open>What a call that returns has done\<close>

lemma organize_by_type_Inr:
  assumes "organize_by_type now s source_dir dest_dir = (Inr r, s1)"
  shows "\<exists>fs1 names operations fs2 target_dir.
           target_dir = (case dest_dir of None \<Rightarrow> source_dir
                         | Some d \<Rightarrow> if d \<noteq> [] then d else source_dir) \<and>
           os_path_exists (disk s) source_dir \<and>
           (if \<not> os_path_exists (disk s) target_dir
            then os_makedirs (disk s) target_dir False else Inr (disk s)) = Inr fs1 \<and>
           os_listdir fs1 source_dir = Inr names \<and>
           organize_loop fs1 source_dir target_dir
             (filter (\<lambda>f. os_path_isfile fs1 (join source_dir f)) names) [] = (Inr operations, fs2) \<and>
           r = None \<and>
           s1 = record_operation now ''organize_by_type'' source_dir target_dir operations
                  (s\<lparr>disk := fs2\<rparr>)"
  using assms unfolding organize_by_type_def Let_def
  by (auto split: if_splits sum.splits prod.splits)

lemma organize_file_Inr:
  assumes "organize_file fs source_dir target_dir file = (Inr r, fs1)"
  shows "\<exists>fsm. os_makedirs fs (join target_dir (category_of file)) True = Inr fsm
         \<and> shutil_move fsm (join source_dir file)
              (get_unique_path fsm (join (join target_dir (category_of file)) file)) = Inr fs1
         \<and> r = \<lparr>mv_operation = ''move'', mv_source = join source_dir file,
                 mv_destination = get_unique_path fsm (join (join target_dir (category_of file)) file)\<rparr>"
  using assms unfolding organize_file_def category_of_def Let_def
  by (auto split: sum.splits)

text \<open>The loop appends one record for each file, in the order of the files.\<close>

lemma organize_loop_sources:
  "organize_loop fs source_dir target_dir files operations0 = (Inr operations, fs1) \<Longrightarrow>
     map mv_source operations = map mv_source operations0 @ map (join source_dir) files"
proof (induction files arbitrary: fs operations0)
  case Nil
  then show ?case by simp
next
  case (Cons x xs)
  from Cons.prems obtain r fs2 where
    f: "organize_file fs source_dir target_dir x = (Inr r, fs2)"
    and l: "organize_loop fs2 source_dir target_dir xs (operations0 @ [r]) = (Inr operations, fs1)"
    by (auto split: prod.splits sum.splits)
  from organize_file_Inr[OF f] have "mv_source r = join source_dir x" by auto
  with Cons.IH[OF l] show ?case by simp
qed

lemma record_operation_organize:
  "record_operation now ''organize_by_type'' source_dir target_dir operations s =
     s\<lparr>history := [\<lparr>op_timestamp = now, op_type = ''organize_by_type'',
                     op_source_dir = source_dir, op_target_dir = target_dir,
                     op_operations = operations\<rparr>],
       last_operation := Some \<lparr>op_timestamp = now, op_type = ''organize_by_type'',
                     op_source_dir = source_dir, op_target_dir = target_dir,
                     op_operations = operations\<rparr>,
       history_file := Stored [\<lparr>op_timestamp = now, op_type = ''organize_by_type'',
                     op_source_dir = source_dir, op_target_dir = target_dir,
                     op_operations = operations\<rparr>],
       timeline_file := timeline_file s @
          [OrganizeEntry now ''organize_by_type'' (length operations) target_dir]\<rparr>"
  by (simp add: record_operation_def save_history_def update_timeline_def Let_def)


section \<open>Undo with no history\<close>

text \<open>
  Claim C2. When the history that \<open>undo_last_operation\<close> loads is empty (the history file
  holds the empty list or is unreadable, or it is absent and the organizer holds no batch),
  the call returns \<open>False\<close>; the directory tree, the history file and the timeline file are
  as they were: no file moved, no directory created or removed, nothing written.
\<close>

theorem undo_empty_history:
  assumes "history (load_history s) = []"
  shows "fst (undo_last_operation now s) = False
       \<and> disk (snd (undo_last_operation now s)) = disk s
       \<and> history_file (snd (undo_last_operation now s)) = history_file s
       \<and> timeline_file (snd (undo_last_operation now s)) = timeline_file s"
proof -
  have "undo_last_operation now s = (False, load_history s)"
    using assms by (simp add: undo_last_operation_def Let_def)
  moreover have "disk (load_history s) = disk s" "history_file (load_history s) = history_file s"
    "timeline_file (load_history s) = timeline_file s"
    by (auto simp: load_history_def split: stored_history.splits)
  ultimately show ?thesis by simp
qed

theorem undo_empty_history_witness:
  "history (load_history empty_log_state) = []
   \<and> fst (undo_last_operation ''t'' empty_log_state) = False
   \<and> disk (snd (undo_last_operation ''t'' empty_log_state)) = disk empty_log_state
   \<and> history_file (snd (undo_last_operation ''t'' empty_log_state)) = Stored []
   \<and> timeline_file (snd (undo_last_operation ''t'' empty_log_state)) = []"
proof -
  have h: "history (load_history empty_log_state) = []"
    by (simp add: load_history_def empty_log_state_def)
  from undo_empty_history[OF h, of "''t''"] h show ?thesis
    by (simp add: empty_log_state_def)
qed

section \<open>Creating directories\<close>

text \<open>\<open>os.makedirs\<close> only adds directories: what was there stays, and no file appears.\<close>

lemma lookup_append_Some: "lookup fs k = Some v \<Longrightarrow> lookup (fs @ xs) k = Some v"
  by (auto simp: lookup_def split: if_splits)

lemma lookup_snoc_new: "lookup fs q = None \<Longrightarrow> lookup (fs @ [(q, n)]) q = Some n"
  by (auto simp: lookup_def map_add_def split: if_splits option.splits)

lemma lookup_snoc_File:
  "lookup (fs @ [(q, Dir)]) k = Some (File c) \<Longrightarrow> lookup fs k = Some (File c)"
  by (auto simp: lookup_def map_add_def split: if_splits option.splits)

lemma ensure_dirs_lookup:
  "ensure_dirs fs pre xs = Inr fs1 \<Longrightarrow> lookup fs k = Some v \<Longrightarrow> lookup fs1 k = Some v"
proof (induction fs pre xs rule: ensure_dirs.induct)
  case (1 fs pre)
  then show ?case by simp
next
  case (2 fs pre x xs)
  then show ?case
    by (auto split: option.splits node.splits intro: lookup_append_Some)
qed

lemma ensure_dirs_File:
  "ensure_dirs fs pre xs = Inr fs1 \<Longrightarrow> lookup fs1 k = Some (File c) \<Longrightarrow> lookup fs k = Some (File c)"
proof (induction fs pre xs rule: ensure_dirs.induct)
  case (1 fs pre)
  then show ?case by simp
next
  case (2 fs pre x xs)
  then show ?case
    by (auto split: option.splits node.splits dest: lookup_snoc_File)
qed

lemma os_makedirs_lookup:
  assumes "os_makedirs fs name ok = Inr fs1" "lookup fs k = Some v"
  shows "lookup fs1 k = Some v"
  using assms unfolding os_makedirs_def
  by (auto split: if_splits sum.splits option.splits node.splits
           intro: lookup_append_Some ensure_dirs_lookup)

lemma os_makedirs_File:
  assumes "os_makedirs fs name ok = Inr fs1" "lookup fs1 k = Some (File c)"
  shows "lookup fs k = Some (File c)"
  using assms unfolding os_makedirs_def
  by (auto split: if_splits sum.splits option.splits node.splits
           dest: lookup_snoc_File ensure_dirs_File)

lemma os_makedirs_isdir:
  assumes "os_makedirs fs name ok = Inr fs1"
  shows "os_path_isdir fs1 name"
  using assms unfolding os_makedirs_def os_path_isdir_def
  by (auto split: if_splits sum.splits option.splits node.splits intro: lookup_snoc_new)

lemma os_makedirs_exists:
  assumes "os_makedirs fs name ok = Inr fs1" "os_path_exists fs p"
  shows "os_path_exists fs1 p"
  using assms os_makedirs_lookup[OF assms(1)] unfolding os_path_exists_def by auto

section \<open>The preconditions of organize\<close>

text \<open>
  Claim C4. When \<open>source_dir\<close> does not exist, \<open>organize_by_type\<close> raises
  \<open>FileNotFoundError\<close> and the whole state is as it was: no directory created, no file
  moved, nothing written to the history or the timeline. When \<open>source_dir\<close> exists, a
  missing or empty \<open>dest_dir\<close> makes the source directory the target; a target that does
  not exist is created with \<open>os.makedirs\<close> before anything else, keeping every entry of
  the tree, and the call goes on as on the tree that holds it (or raises with the state
  unchanged when it cannot be created). The path strings are the ones \<open>path_ok\<close> admits.
\<close>

theorem organize_preconditions:
  "(path_ok (disk s) source_dir \<and> \<not> os_path_exists (disk s) source_dir \<longrightarrow>
      organize_by_type now s source_dir dest_dir = (Inl FileNotFoundError, s))
   \<and> (path_ok (disk s) source_dir \<and> os_path_exists (disk s) source_dir \<longrightarrow>
      organize_by_type now s source_dir None = organize_by_type now s source_dir (Some source_dir)
      \<and> organize_by_type now s source_dir (Some []) = organize_by_type now s source_dir (Some source_dir))
   \<and> (path_ok (disk s) source_dir \<and> path_ok (disk s) target_dir \<and>
      os_path_exists (disk s) source_dir \<and> target_dir \<noteq> [] \<and>
      \<not> os_path_exists (disk s) target_dir \<longrightarrow>
      (case os_makedirs (disk s) target_dir False of
         Inl e \<Rightarrow> organize_by_type now s source_dir (Some target_dir) = (Inl e, s)
       | Inr fs1 \<Rightarrow>
           os_path_isdir fs1 target_dir \<and>
           (\<forall>q v. lookup (disk s) q = Some v \<longrightarrow> lookup fs1 q = Some v) \<and>
           organize_by_type now s source_dir (Some target_dir) =
             organize_by_type now (s\<lparr>disk := fs1\<rparr>) source_dir (Some target_dir)))"
proof -
  have 1: "path_ok (disk s) source_dir \<and> \<not> os_path_exists (disk s) source_dir \<longrightarrow>
      organize_by_type now s source_dir dest_dir = (Inl FileNotFoundError, s)"
    by (simp add: organize_by_type_def)
  have 2: "path_ok (disk s) source_dir \<and> os_path_exists (disk s) source_dir \<longrightarrow>
      organize_by_type now s source_dir None = organize_by_type now s source_dir (Some source_dir)
      \<and> organize_by_type now s source_dir (Some []) = organize_by_type now s source_dir (Some source_dir)"
  proof
    assume "path_ok (disk s) source_dir \<and> os_path_exists (disk s) source_dir"
    then have "source_dir \<noteq> []" by (simp add: os_path_exists_def)
    then show "organize_by_type now s source_dir None = organize_by_type now s source_dir (Some source_dir)
      \<and> organize_by_type now s source_dir (Some []) = organize_by_type now s source_dir (Some source_dir)"
      by (simp add: organize_by_type_def)
  qed
  have 3: "path_ok (disk s) source_dir \<and> path_ok (disk s) target_dir \<and>
      os_path_exists (disk s) source_dir \<and> target_dir \<noteq> [] \<and>
      \<not> os_path_exists (disk s) target_dir \<longrightarrow>
      (case os_makedirs (disk s) target_dir False of
         Inl e \<Rightarrow> organize_by_type now s source_dir (Some target_dir) = (Inl e, s)
       | Inr fs1 \<Rightarrow>
           os_path_isdir fs1 target_dir \<and>
           (\<forall>q v. lookup (disk s) q = Some v \<longrightarrow> lookup fs1 q = Some v) \<and>
           organize_by_type now s source_dir (Some target_dir) =
             organize_by_type now (s\<lparr>disk := fs1\<rparr>) source_dir (Some target_dir))"
  proof
    assume h: "path_ok (disk s) source_dir \<and> path_ok (disk s) target_dir \<and>
      os_path_exists (disk s) source_dir \<and> target_dir \<noteq> [] \<and>
      \<not> os_path_exists (disk s) target_dir"
    then have a: "os_path_exists (disk s) source_dir" "target_dir \<noteq> []"
      "\<not> os_path_exists (disk s) target_dir" by simp_all
    show "case os_makedirs (disk s) target_dir False of
         Inl e \<Rightarrow> organize_by_type now s source_dir (Some target_dir) = (Inl e, s)
       | Inr fs1 \<Rightarrow>
           os_path_isdir fs1 target_dir \<and>
           (\<forall>q v. lookup (disk s) q = Some v \<longrightarrow> lookup fs1 q = Some v) \<and>
           organize_by_type now s source_dir (Some target_dir) =
             organize_by_type now (s\<lparr>disk := fs1\<rparr>) source_dir (Some target_dir)"
    proof (cases "os_makedirs (disk s) target_dir False")
      case (Inl e)
      then show ?thesis using a by (simp add: organize_by_type_def)
    next
      case (Inr fs1)
      have d: "os_path_isdir fs1 target_dir" using Inr by (rule os_makedirs_isdir)
      then have x: "os_path_exists fs1 target_dir"
        by (simp add: os_path_isdir_def os_path_exists_def)
      have y: "os_path_exists fs1 source_dir" using Inr a(1) by (rule os_makedirs_exists)
      have k: "\<forall>q v. lookup (disk s) q = Some v \<longrightarrow> lookup fs1 q = Some v"
        using os_makedirs_lookup[OF Inr] by blast
      have "organize_by_type now s source_dir (Some target_dir) =
             organize_by_type now (s\<lparr>disk := fs1\<rparr>) source_dir (Some target_dir)"
        using Inr a d x y by (simp add: organize_by_type_def split: sum.splits prod.splits)
      with d k show ?thesis by (simp add: Inr)
    qed
  qed
  from 1 2 3 show ?thesis by (intro conjI) assumption+
qed

theorem organize_preconditions_witness:
  "path_ok (disk scenario_start) ''Q''
   \<and> \<not> os_path_exists (disk scenario_start) ''Q''
   \<and> organize_by_type ''t1'' scenario_start ''Q'' None = (Inl FileNotFoundError, scenario_start)
   \<and> path_ok (disk scenario_start) ''T''
   \<and> os_path_exists (disk scenario_start) ''T''
   \<and> organize_by_type ''t1'' scenario_start ''T'' None
       = organize_by_type ''t1'' scenario_start ''T'' (Some ''T'')
   \<and> path_ok (disk scenario_start) ''D/new''
   \<and> \<not> os_path_exists (disk scenario_start) ''D/new''
   \<and> os_path_isdir (disk scenario_start @ [([''D''], Dir), ([''D'', ''new''], Dir)]) ''D/new''
   \<and> organize_by_type ''t1'' scenario_start ''T'' (Some ''D/new'')
       = organize_by_type ''t1''
           (scenario_start\<lparr>disk := disk scenario_start @ [([''D''], Dir), ([''D'', ''new''], Dir)]\<rparr>)
           ''T'' (Some ''D/new'')"
proof -
  have pq: "path_ok (disk scenario_start) ''Q''" by code_simp
  have pt: "path_ok (disk scenario_start) ''T''" by code_simp
  have pd: "path_ok (disk scenario_start) ''D/new''" by code_simp
  have a: "\<not> os_path_exists (disk scenario_start) ''Q''" by code_simp
  have b: "os_path_exists (disk scenario_start) ''T''" by code_simp
  have c: "\<not> os_path_exists (disk scenario_start) ''D/new''" by code_simp
  have m: "os_makedirs (disk scenario_start) ''D/new'' False
             = Inr (disk scenario_start @ [([''D''], Dir), ([''D'', ''new''], Dir)])"
    by code_simp
  from organize_preconditions[of scenario_start "''Q''" "''t1''" None "''D/new''"] pq a
  have 1: "organize_by_type ''t1'' scenario_start ''Q'' None = (Inl FileNotFoundError, scenario_start)"
    by blast
  from organize_preconditions[of scenario_start "''T''" "''t1''" None "''D/new''"] pt b
  have 2: "organize_by_type ''t1'' scenario_start ''T'' None
       = organize_by_type ''t1'' scenario_start ''T'' (Some ''T'')"
    by blast
  from organize_preconditions[of scenario_start "''T''" "''t1''" None "''D/new''"] pt pd b c
  have "case os_makedirs (disk scenario_start) ''D/new'' False of
         Inl e \<Rightarrow> organize_by_type ''t1'' scenario_start ''T'' (Some ''D/new'') = (Inl e, scenario_start)
       | Inr fs1 \<Rightarrow>
           os_path_isdir fs1 ''D/new'' \<and>
           (\<forall>q v. lookup (disk scenario_start) q = Some v \<longrightarrow> lookup fs1 q = Some v) \<and>
           organize_by_type ''t1'' scenario_start ''T'' (Some ''D/new'') =
             organize_by_type ''t1'' (scenario_start\<lparr>disk := fs1\<rparr>) ''T'' (Some ''D/new'')"
    by simp
  then have 3: "os_path_isdir (disk scenario_start @ [([''D''], Dir), ([''D'', ''new''], Dir)]) ''D/new''"
    and 4: "organize_by_type ''t1'' scenario_start ''T'' (Some ''D/new'')
       = organize_by_type ''t1''
           (scenario_start\<lparr>disk := disk scenario_start @ [([''D''], Dir), ([''D'', ''new''], Dir)]\<rparr>)
           ''T'' (Some ''D/new'')"
    unfolding m by simp_all
  from pq a 1 pt b 2 pd c 3 4 show ?thesis by (intro conjI) assumption+
qed

section \<open>Category resolution\<close>

lemma find_category_first_match:
  "find_category table ext =
     (case List.find (\<lambda>(file_type, extensions). lower ext \<in> set extensions) table of
        None \<Rightarrow> ''others''
      | Some (file_type, extensions) \<Rightarrow> file_type)"
  by (induction table ext rule: find_category.induct) auto

text \<open>
  Claim C6. The category of a file is found from its lowered extension by the first match
  over the table in its declared order, and is \<open>others\<close> when no category lists the
  extension. So \<open>a.jpg\<close> (and \<open>A.JPG\<close>) resolve to \<open>images\<close>, \<open>b.txt\<close> to \<open>documents\<close> and
  \<open>c.xyz\<close> to \<open>others\<close>, and organizing a directory that holds the three files puts them
  under \<open>images/\<close>, \<open>documents/\<close> and \<open>others/\<close>.
\<close>

theorem category_resolution:
  "category_of file =
     (case List.find (\<lambda>(file_type, extensions). lower (snd (splitext file)) \<in> set extensions)
             file_types of
        None \<Rightarrow> ''others''
      | Some (file_type, extensions) \<Rightarrow> file_type)
   \<and> category_of ''a.jpg'' = ''images''
   \<and> category_of ''A.JPG'' = ''images''
   \<and> category_of ''b.txt'' = ''documents''
   \<and> category_of ''c.xyz'' = ''others''
   \<and> disk (snd (organize_by_type ''t1'' scenario_start ''T'' None)) =
       [([''T''], Dir),
        ([''T'', ''images'', ''a.jpg''], File ''A''),
        ([''T'', ''documents'', ''b.txt''], File ''B''),
        ([''T'', ''others'', ''c.xyz''], File ''C''),
        ([''T'', ''images''], Dir), ([''T'', ''documents''], Dir), ([''T'', ''others''], Dir)]"
proof -
  have 1: "category_of file =
     (case List.find (\<lambda>(file_type, extensions). lower (snd (splitext file)) \<in> set extensions)
             file_types of
        None \<Rightarrow> ''others''
      | Some (file_type, extensions) \<Rightarrow> file_type)"
    unfolding category_of_def by (rule find_category_first_match)
  have 2: "category_of ''a.jpg'' = ''images''" by code_simp
  have 3: "category_of ''A.JPG'' = ''images''" by code_simp
  have 4: "category_of ''b.txt'' = ''documents''" by code_simp
  have 5: "category_of ''c.xyz'' = ''others''" by code_simp
  have 6: "disk (snd (organize_by_type ''t1'' scenario_start ''T'' None)) =
       [([''T''], Dir),
        ([''T'', ''images'', ''a.jpg''], File ''A''),
        ([''T'', ''documents'', ''b.txt''], File ''B''),
        ([''T'', ''others'', ''c.xyz''], File ''C''),
        ([''T'', ''images''], Dir), ([''T'', ''documents''], Dir), ([''T'', ''others''], Dir)]"
    by code_simp
  from 1 2 3 4 5 6 show ?thesis by blast
qed

section \<open>The value organize returns\<close>

text \<open>
  Claim C9, as the specification states it, fails: a call that succeeds returns \<open>None\<close>,
  not the batch. The example is the directory with the three files of the scenario.
\<close>

theorem organize_returns_batch_counterexample:
  "fst (organize_by_type ''t1'' scenario_start ''T'' None) = Inr None
   \<and> fst (organize_by_type ''t1'' scenario_start ''T'' None)
       \<noteq> Inr (last_operation (snd (organize_by_type ''t1'' scenario_start ''T'' None)))"
  by code_simp

text \<open>
  Claim C9, amended. Every call of \<open>organize_by_type\<close> that succeeds returns \<open>None\<close>. The
  batch that describes its moves is kept as the organizer's \<open>last_operation\<close>, as the only
  element of \<open>history\<close> and in the history file: it bears the time, the source and the
  target of the call, and its records are exactly the ones that the loop of this call
  produced, one for each regular file that the source directory listed, in that order,
  on the tree that the loop left. The path strings are the ones \<open>path_ok\<close> admits.
\<close>

theorem organize_returns_none:
  assumes "path_ok (disk s) source_dir"
    and "path_ok (disk s) target_dir"
    and "target_dir = (case dest_dir of None \<Rightarrow> source_dir
                       | Some d \<Rightarrow> if d \<noteq> [] then d else source_dir)"
    and "organize_by_type now s source_dir dest_dir = (Inr r, s1)"
  shows "r = None
       \<and> (\<exists>fs1 names operations.
            (if \<not> os_path_exists (disk s) target_dir
             then os_makedirs (disk s) target_dir False else Inr (disk s)) = Inr fs1
            \<and> os_listdir fs1 source_dir = Inr names
            \<and> organize_loop fs1 source_dir target_dir
                (filter (\<lambda>f. os_path_isfile fs1 (join source_dir f)) names) []
                 = (Inr operations, disk s1)
            \<and> map mv_source operations
                 = map (join source_dir) (filter (\<lambda>f. os_path_isfile fs1 (join source_dir f)) names)
            \<and> last_operation s1 =
                 Some \<lparr>op_timestamp = now, op_type = ''organize_by_type'',
                       op_source_dir = source_dir, op_target_dir = target_dir,
                       op_operations = operations\<rparr>
            \<and> history s1 =
                 [\<lparr>op_timestamp = now, op_type = ''organize_by_type'',
                   op_source_dir = source_dir, op_target_dir = target_dir,
                   op_operations = operations\<rparr>]
            \<and> history_file s1 =
                 Stored [\<lparr>op_timestamp = now, op_type = ''organize_by_type'',
                          op_source_dir = source_dir, op_target_dir = target_dir,
                          op_operations = operations\<rparr>])"
proof -
  from organize_by_type_Inr[OF assms(4)] assms(3) obtain fs1 names operations fs2 where
    p: "(if \<not> os_path_exists (disk s) target_dir
         then os_makedirs (disk s) target_dir False else Inr (disk s)) = Inr fs1"
    and n: "os_listdir fs1 source_dir = Inr names"
    and l: "organize_loop fs1 source_dir target_dir
             (filter (\<lambda>f. os_path_isfile fs1 (join source_dir f)) names) [] = (Inr operations, fs2)"
    and r: "r = None"
    and s1: "s1 = record_operation now ''organize_by_type'' source_dir target_dir operations
                  (s\<lparr>disk := fs2\<rparr>)"
    by auto
  let ?b = "\<lparr>op_timestamp = now, op_type = ''organize_by_type'',
                     op_source_dir = source_dir, op_target_dir = target_dir,
                     op_operations = operations\<rparr>"
  have f: "last_operation s1 = Some ?b" "history s1 = [?b]" "history_file s1 = Stored [?b]"
    and d: "disk s1 = fs2"
    unfolding s1 record_operation_organize by simp_all
  have m: "map mv_source operations
             = map (join source_dir) (filter (\<lambda>f. os_path_isfile fs1 (join source_dir f)) names)"
    using organize_loop_sources[OF l] by simp
  from l d have l': "organize_loop fs1 source_dir target_dir
             (filter (\<lambda>f. os_path_isfile fs1 (join source_dir f)) names) []
              = (Inr operations, disk s1)" by simp
  have "\<exists>fs1 names operations.
            (if \<not> os_path_exists (disk s) target_dir
             then os_makedirs (disk s) target_dir False else Inr (disk s)) = Inr fs1
            \<and> os_listdir fs1 source_dir = Inr names
            \<and> organize_loop fs1 source_dir target_dir
                (filter (\<lambda>f. os_path_isfile fs1 (join source_dir f)) names) []
                 = (Inr operations, disk s1)
            \<and> map mv_source operations
                 = map (join source_dir) (filter (\<lambda>f. os_path_isfile fs1 (join source_dir f)) names)
            \<and> last_operation s1 =
                 Some \<lparr>op_timestamp = now, op_type = ''organize_by_type'',
                       op_source_dir = source_dir, op_target_dir = target_dir,
                       op_operations = operations\<rparr>
            \<and> history s1 =
                 [\<lparr>op_timestamp = now, op_type = ''organize_by_type'',
                   op_source_dir = source_dir, op_target_dir = target_dir,
                   op_operations = operations\<rparr>]
            \<and> history_file s1 =
                 Stored [\<lparr>op_timestamp = now, op_type = ''organize_by_type'',
                          op_source_dir = source_dir, op_target_dir = target_dir,
                          op_operations = operations\<rparr>]"
    using p n l' m f by blast
  with r show ?thesis by simp
qed

theorem organize_returns_none_witness:
  "path_ok (disk scenario_start) ''T''
   \<and> organize_by_type ''t1'' scenario_start ''T'' None
       = (Inr None, snd (organize_by_type ''t1'' scenario_start ''T'' None))
   \<and> last_operation (snd (organize_by_type ''t1'' scenario_start ''T'' None)) =
       Some \<lparr>op_timestamp = ''t1'', op_type = ''organize_by_type'',
             op_source_dir = ''T'', op_target_dir = ''T'',
             op_operations =
               [\<lparr>mv_operation = ''move'', mv_source = ''T/a.jpg'',
                  mv_destination = ''T/images/a.jpg''\<rparr>,
                \<lparr>mv_operation = ''move'', mv_source = ''T/b.txt'',
                  mv_destination = ''T/documents/b.txt''\<rparr>,
                \<lparr>mv_operation = ''move'', mv_source = ''T/c.xyz'',
                  mv_destination = ''T/others/c.xyz''\<rparr>]\<rparr>
   \<and> history_file (snd (organize_by_type ''t1'' scenario_start ''T'' None)) =
       Stored [\<lparr>op_timestamp = ''t1'', op_type = ''organize_by_type'',
                op_source_dir = ''T'', op_target_dir = ''T'',
                op_operations =
                  [\<lparr>mv_operation = ''move'', mv_source = ''T/a.jpg'',
                     mv_destination = ''T/images/a.jpg''\<rparr>,
                   \<lparr>mv_operation = ''move'', mv_source = ''T/b.txt'',
                     mv_destination = ''T/documents/b.txt''\<rparr>,
                   \<lparr>mv_operation = ''move'', mv_source = ''T/c.xyz'',
                     mv_destination = ''T/others/c.xyz''\<rparr>]\<rparr>]"
proof -
  let ?res = "organize_by_type ''t1'' scenario_start ''T'' None"
  let ?ops = "[\<lparr>mv_operation = ''move'', mv_source = ''T/a.jpg'',
                  mv_destination = ''T/images/a.jpg''\<rparr>,
                \<lparr>mv_operation = ''move'', mv_source = ''T/b.txt'',
                  mv_destination = ''T/documents/b.txt''\<rparr>,
                \<lparr>mv_operation = ''move'', mv_source = ''T/c.xyz'',
                  mv_destination = ''T/others/c.xyz''\<rparr>]"
  have p: "path_ok (disk scenario_start) ''T''" by code_simp
  have t: "''T'' = (case None :: string option of None \<Rightarrow> ''T''
                       | Some d \<Rightarrow> if d \<noteq> [] then d else ''T'')" by simp
  have f: "fst ?res = Inr None" by code_simp
  then have e: "?res = (Inr None, snd ?res)" by (simp add: prod_eq_iff)
  have x: "os_path_exists (disk scenario_start) ''T''" by code_simp
  have n: "os_listdir (disk scenario_start) ''T'' = Inr [''a.jpg'', ''b.txt'', ''c.xyz'']"
    by code_simp
  have k: "filter (\<lambda>f. os_path_isfile (disk scenario_start) (join ''T'' f))
             [''a.jpg'', ''b.txt'', ''c.xyz''] = [''a.jpg'', ''b.txt'', ''c.xyz'']"
    by code_simp
  have l: "fst (organize_loop (disk scenario_start) ''T'' ''T'' [''a.jpg'', ''b.txt'', ''c.xyz''] [])
             = Inr ?ops"
    by code_simp
  from organize_returns_none[OF p p t e] obtain fs1 names operations where
    1: "(if \<not> os_path_exists (disk scenario_start) ''T''
         then os_makedirs (disk scenario_start) ''T'' False else Inr (disk scenario_start)) = Inr fs1"
    and 2: "os_listdir fs1 ''T'' = Inr names"
    and 3: "organize_loop fs1 ''T'' ''T''
              (filter (\<lambda>f. os_path_isfile fs1 (join ''T'' f)) names) [] = (Inr operations, disk (snd ?res))"
    and 4: "last_operation (snd ?res) =
                 Some \<lparr>op_timestamp = ''t1'', op_type = ''organize_by_type'',
                       op_source_dir = ''T'', op_target_dir = ''T'',
                       op_operations = operations\<rparr>"
    and 5: "history_file (snd ?res) =
                 Stored [\<lparr>op_timestamp = ''t1'', op_type = ''organize_by_type'',
                          op_source_dir = ''T'', op_target_dir = ''T'',
                          op_operations = operations\<rparr>]"
    by blast
  from 1 x have "fs1 = disk scenario_start" by simp
  with 2 n have "names = [''a.jpg'', ''b.txt'', ''c.xyz'']" by simp
  with 3 k l \<open>fs1 = disk scenario_start\<close> have "operations = ?ops" by simp
  with 4 5 p e show ?thesis by simp
qed

section \<open>A failure in the middle of a batch\<close>

lemma organize_loop_append:
  "organize_loop fs source_dir target_dir (xs @ ys) operations =
     (case organize_loop fs source_dir target_dir xs operations of
        (Inl e, fs1) \<Rightarrow> (Inl e, fs1)
      | (Inr operations1, fs1) \<Rightarrow> organize_loop fs1 source_dir target_dir ys operations1)"
  by (induction xs arbitrary: fs operations) (auto split: prod.splits sum.splits)

lemma organize_file_Inl_lookup:
  assumes "organize_file fs source_dir target_dir file = (Inl e, fs1)" "lookup fs q = Some v"
  shows "lookup fs1 q = Some v"
  using assms unfolding organize_file_def Let_def
  by (auto split: sum.splits dest: os_makedirs_lookup)

text \<open>
  Claim C8. When the step for one file raises after the files before it have been moved,
  \<open>organize_by_type\<close> raises the same exception; the files after it are not processed
  (the result does not depend on them); the tree is the one the failing step left, in which
  everything the earlier steps put in place is still there; and the history file, the
  timeline file, \<open>history\<close> and \<open>last_operation\<close> are as they were before the call.
\<close>

theorem organize_failure_keeps_log:
  assumes "os_path_exists (disk s) source_dir"
    and "target_dir = (case dest_dir of None \<Rightarrow> source_dir
                       | Some d \<Rightarrow> if d \<noteq> [] then d else source_dir)"
    and "(if \<not> os_path_exists (disk s) target_dir
          then os_makedirs (disk s) target_dir False else Inr (disk s)) = Inr fs1"
    and "os_listdir fs1 source_dir = Inr names"
    and "filter (\<lambda>f. os_path_isfile fs1 (join source_dir f)) names = moved @ file # rest"
    and "organize_loop fs1 source_dir target_dir moved [] = (Inr operations, fs2)"
    and "organize_file fs2 source_dir target_dir file = (Inl e, fs3)"
  shows "organize_by_type now s source_dir dest_dir = (Inl e, s\<lparr>disk := fs3\<rparr>)
       \<and> history_file (snd (organize_by_type now s source_dir dest_dir)) = history_file s
       \<and> timeline_file (snd (organize_by_type now s source_dir dest_dir)) = timeline_file s
       \<and> history (snd (organize_by_type now s source_dir dest_dir)) = history s
       \<and> last_operation (snd (organize_by_type now s source_dir dest_dir)) = last_operation s
       \<and> (\<forall>q v. lookup fs2 q = Some v \<longrightarrow> lookup fs3 q = Some v)"
proof -
  have "organize_loop fs1 source_dir target_dir (moved @ file # rest) [] = (Inl e, fs3)"
    using assms(6,7) by (simp add: organize_loop_append)
  then have "organize_by_type now s source_dir dest_dir = (Inl e, s\<lparr>disk := fs3\<rparr>)"
    using assms(1-5) unfolding organize_by_type_def Let_def by (simp split: if_splits)
  moreover have "\<forall>q v. lookup fs2 q = Some v \<longrightarrow> lookup fs3 q = Some v"
    using organize_file_Inl_lookup[OF assms(7)] by blast
  ultimately show ?thesis by simp
qed

theorem organize_failure_keeps_log_witness:
  "organize_by_type ''t1'' blocked_start ''T'' None =
     (Inl FileExistsError,
      blocked_start\<lparr>disk := [([''T''], Dir), ([''T'', ''images'', ''a.jpg''], File ''A''),
                             ([''T'', ''others''], File ''O''), ([''T'', ''b.txt''], File ''B''),
                             ([''T'', ''images''], Dir)]\<rparr>)
   \<and> history_file (snd (organize_by_type ''t1'' blocked_start ''T'' None)) = Stored []
   \<and> timeline_file (snd (organize_by_type ''t1'' blocked_start ''T'' None)) = []"
proof -
  let ?fs2 = "[([''T''], Dir), ([''T'', ''images'', ''a.jpg''], File ''A''),
              ([''T'', ''others''], File ''O''), ([''T'', ''b.txt''], File ''B''),
              ([''T'', ''images''], Dir)]"
  have 1: "os_path_exists (disk blocked_start) ''T''" by code_simp
  have 2: "''T'' = (case None :: string option of None \<Rightarrow> ''T''
                       | Some d \<Rightarrow> if d \<noteq> [] then d else ''T'')" by simp
  have 3: "(if \<not> os_path_exists (disk blocked_start) ''T''
          then os_makedirs (disk blocked_start) ''T'' False else Inr (disk blocked_start))
          = Inr (disk blocked_start)" using 1 by simp
  have 4: "os_listdir (disk blocked_start) ''T'' = Inr [''a.jpg'', ''others'', ''b.txt'']"
    by code_simp
  have 5: "filter (\<lambda>f. os_path_isfile (disk blocked_start) (join ''T'' f))
             [''a.jpg'', ''others'', ''b.txt''] = [''a.jpg''] @ ''others'' # [''b.txt'']"
    by code_simp
  have 6: "organize_loop (disk blocked_start) ''T'' ''T'' [''a.jpg''] [] =
             (Inr [\<lparr>mv_operation = ''move'', mv_source = ''T/a.jpg'',
                    mv_destination = ''T/images/a.jpg''\<rparr>], ?fs2)"
    by code_simp
  have 7: "organize_file ?fs2 ''T'' ''T'' ''others'' = (Inl FileExistsError, ?fs2)"
    by code_simp
  from organize_failure_keeps_log[OF 1 2 3 4 5 6 7, of "''t1''"]
  show ?thesis by (simp add: blocked_start_def)
qed

section \<open>The single-slot history\<close>

lemma load_history_disk [simp]: "disk (load_history s) = disk s"
  by (simp add: load_history_def split: stored_history.splits)

lemma undo_last_operation_True:
  assumes "fst (undo_last_operation now s)"
  shows "\<exists>b rest fs1.
           history (load_history s) = b # rest \<and>
           restore_loop (disk s) (rev (op_operations b)) = (Inr (), fs1) \<and>
           snd (undo_last_operation now s) =
             update_timeline
               \<lparr>op_timestamp = now, op_type = ''undo'', op_source_dir = op_source_dir b,
                 op_target_dir = op_target_dir b, op_operations = []\<rparr>
               (save_history ((load_history s)
                  \<lparr>disk := walk_cleanup [Visit (op_target_dir b)] fs1,
                    history := [], last_operation := None\<rparr>))"
  using assms unfolding undo_last_operation_def Let_def
  by (auto split: list.splits prod.splits sum.splits)

lemma organize_by_type_stores:
  assumes "target_dir = (case dest_dir of None \<Rightarrow> source_dir
                         | Some d \<Rightarrow> if d \<noteq> [] then d else source_dir)"
    and "organize_by_type now s source_dir dest_dir = (Inr r, s1)"
  shows "\<exists>fs1 names operations.
           (if \<not> os_path_exists (disk s) target_dir
            then os_makedirs (disk s) target_dir False else Inr (disk s)) = Inr fs1
           \<and> os_listdir fs1 source_dir = Inr names
           \<and> organize_loop fs1 source_dir target_dir
               (filter (\<lambda>f. os_path_isfile fs1 (join source_dir f)) names) []
                = (Inr operations, disk s1)
           \<and> map mv_source operations
                = map (join source_dir) (filter (\<lambda>f. os_path_isfile fs1 (join source_dir f)) names)
           \<and> history_file s1 =
                Stored [\<lparr>op_timestamp = now, op_type = ''organize_by_type'',
                         op_source_dir = source_dir, op_target_dir = target_dir,
                         op_operations = operations\<rparr>]
           \<and> history s1 =
                [\<lparr>op_timestamp = now, op_type = ''organize_by_type'',
                  op_source_dir = source_dir, op_target_dir = target_dir,
                  op_operations = operations\<rparr>]"
proof -
  from organize_by_type_Inr[OF assms(2)] assms(1) obtain fs1 names operations fs2 where
    p: "(if \<not> os_path_exists (disk s) target_dir
         then os_makedirs (disk s) target_dir False else Inr (disk s)) = Inr fs1"
    and n: "os_listdir fs1 source_dir = Inr names"
    and l: "organize_loop fs1 source_dir target_dir
             (filter (\<lambda>f. os_path_isfile fs1 (join source_dir f)) names) [] = (Inr operations, fs2)"
    and s1: "s1 = record_operation now ''organize_by_type'' source_dir target_dir operations
                  (s\<lparr>disk := fs2\<rparr>)"
    by auto
  let ?b = "\<lparr>op_timestamp = now, op_type = ''organize_by_type'',
                     op_source_dir = source_dir, op_target_dir = target_dir,
                     op_operations = operations\<rparr>"
  have f: "history s1 = [?b]" "history_file s1 = Stored [?b]"
    and d: "disk s1 = fs2"
    unfolding s1 record_operation_organize by simp_all
  have m: "map mv_source operations
             = map (join source_dir) (filter (\<lambda>f. os_path_isfile fs1 (join source_dir f)) names)"
    using organize_loop_sources[OF l] by simp
  from l d have l': "organize_loop fs1 source_dir target_dir
             (filter (\<lambda>f. os_path_isfile fs1 (join source_dir f)) names) []
              = (Inr operations, disk s1)" by simp
  from p n l' m f show ?thesis by blast
qed

text \<open>
  Claim C3. \<open>_save_history\<close> never writes more than one batch. After a call of
  \<open>organize_by_type\<close> that succeeds the history file holds exactly one batch, the one of
  that call: it bears the time, the source and the target of the call, and its records are
  the ones that the loop of this call produced on the tree it left, one for each regular
  file that the source directory listed. After an undo that succeeds the history file holds
  the empty list. After two calls of \<open>organize_by_type\<close> in a row the history file holds
  the batch of the second call alone, with the records of the second loop, whatever the
  first call stored; an undo that succeeds then has replayed exactly these records, in
  reverse, so it moves no file that only the first call moved. The path strings are the ones
  \<open>path_ok\<close> admits.
\<close>

theorem history_single_slot:
  "(\<exists>h. history_file (save_history s) = Stored h \<and> length h \<le> 1)
   \<and> (path_ok (disk s) source_dir \<and> path_ok (disk s) target_dir
        \<and> target_dir = (case dest_dir of None \<Rightarrow> source_dir
                         | Some d \<Rightarrow> if d \<noteq> [] then d else source_dir)
        \<and> organize_by_type now s source_dir dest_dir = (Inr r, s1) \<longrightarrow>
        (\<exists>fs1 names operations.
           (if \<not> os_path_exists (disk s) target_dir
            then os_makedirs (disk s) target_dir False else Inr (disk s)) = Inr fs1
           \<and> os_listdir fs1 source_dir = Inr names
           \<and> organize_loop fs1 source_dir target_dir
               (filter (\<lambda>f. os_path_isfile fs1 (join source_dir f)) names) []
                = (Inr operations, disk s1)
           \<and> map mv_source operations
                = map (join source_dir) (filter (\<lambda>f. os_path_isfile fs1 (join source_dir f)) names)
           \<and> history_file s1 =
                Stored [\<lparr>op_timestamp = now, op_type = ''organize_by_type'',
                         op_source_dir = source_dir, op_target_dir = target_dir,
                         op_operations = operations\<rparr>]
           \<and> history s1 =
                [\<lparr>op_timestamp = now, op_type = ''organize_by_type'',
                  op_source_dir = source_dir, op_target_dir = target_dir,
                  op_operations = operations\<rparr>]))
   \<and> (fst (undo_last_operation now s) \<longrightarrow>
        history_file (snd (undo_last_operation now s)) = Stored []
        \<and> history (snd (undo_last_operation now s)) = []
        \<and> last_operation (snd (undo_last_operation now s)) = None)
   \<and> (path_ok (disk s) source_dir \<and> path_ok (disk s) target_dir
        \<and> target_dir = (case dest_dir of None \<Rightarrow> source_dir
                         | Some d \<Rightarrow> if d \<noteq> [] then d else source_dir)
        \<and> organize_by_type now s source_dir dest_dir = (Inr r, s1)
        \<and> path_ok (disk s1) source_dir2 \<and> path_ok (disk s1) target_dir2
        \<and> target_dir2 = (case dest_dir2 of None \<Rightarrow> source_dir2
                          | Some d \<Rightarrow> if d \<noteq> [] then d else source_dir2)
        \<and> organize_by_type now2 s1 source_dir2 dest_dir2 = (Inr r2, s2) \<longrightarrow>
        (\<exists>fs1 names operations.
           (if \<not> os_path_exists (disk s1) target_dir2
            then os_makedirs (disk s1) target_dir2 False else Inr (disk s1)) = Inr fs1
           \<and> os_listdir fs1 source_dir2 = Inr names
           \<and> organize_loop fs1 source_dir2 target_dir2
               (filter (\<lambda>f. os_path_isfile fs1 (join source_dir2 f)) names) []
                = (Inr operations, disk s2)
           \<and> map mv_source operations
                = map (join source_dir2) (filter (\<lambda>f. os_path_isfile fs1 (join source_dir2 f)) names)
           \<and> history_file s2 =
                Stored [\<lparr>op_timestamp = now2, op_type = ''organize_by_type'',
                         op_source_dir = source_dir2, op_target_dir = target_dir2,
                         op_operations = operations\<rparr>]
           \<and> history (load_history s2) =
                [\<lparr>op_timestamp = now2, op_type = ''organize_by_type'',
                  op_source_dir = source_dir2, op_target_dir = target_dir2,
                  op_operations = operations\<rparr>]
           \<and> (fst (undo_last_operation now3 s2) \<longrightarrow>
                (\<exists>fs3. restore_loop (disk s2) (rev operations) = (Inr (), fs3)
                   \<and> disk (snd (undo_last_operation now3 s2))
                       = walk_cleanup [Visit target_dir2] fs3)
                \<and> history_file (snd (undo_last_operation now3 s2)) = Stored [])))"
proof -
  have 1: "\<exists>h. history_file (save_history s) = Stored h \<and> length h \<le> 1"
    by (cases "last_operation s") (simp_all add: save_history_def)
  have 2: "path_ok (disk s) source_dir \<and> path_ok (disk s) target_dir
        \<and> target_dir = (case dest_dir of None \<Rightarrow> source_dir
                         | Some d \<Rightarrow> if d \<noteq> [] then d else source_dir)
        \<and> organize_by_type now s source_dir dest_dir = (Inr r, s1) \<longrightarrow>
        (\<exists>fs1 names operations.
           (if \<not> os_path_exists (disk s) target_dir
            then os_makedirs (disk s) target_dir False else Inr (disk s)) = Inr fs1
           \<and> os_listdir fs1 source_dir = Inr names
           \<and> organize_loop fs1 source_dir target_dir
               (filter (\<lambda>f. os_path_isfile fs1 (join source_dir f)) names) []
                = (Inr operations, disk s1)
           \<and> map mv_source operations
                = map (join source_dir) (filter (\<lambda>f. os_path_isfile fs1 (join source_dir f)) names)
           \<and> history_file s1 =
                Stored [\<lparr>op_timestamp = now, op_type = ''organize_by_type'',
                         op_source_dir = source_dir, op_target_dir = target_dir,
                         op_operations = operations\<rparr>]
           \<and> history s1 =
                [\<lparr>op_timestamp = now, op_type = ''organize_by_type'',
                  op_source_dir = source_dir, op_target_dir = target_dir,
                  op_operations = operations\<rparr>])"
    using organize_by_type_stores[where target_dir = target_dir and dest_dir = dest_dir
        and source_dir = source_dir and now = now and s = s and r = r and ?s1.0 = s1] by blast
  have 3: "fst (undo_last_operation now s) \<longrightarrow>
        history_file (snd (undo_last_operation now s)) = Stored []
        \<and> history (snd (undo_last_operation now s)) = []
        \<and> last_operation (snd (undo_last_operation now s)) = None"
  proof
    assume "fst (undo_last_operation now s)"
    from undo_last_operation_True[OF this]
    show "history_file (snd (undo_last_operation now s)) = Stored []
        \<and> history (snd (undo_last_operation now s)) = []
        \<and> last_operation (snd (undo_last_operation now s)) = None"
      by (auto simp: update_timeline_def save_history_def)
  qed
  have 4: "path_ok (disk s) source_dir \<and> path_ok (disk s) target_dir
        \<and> target_dir = (case dest_dir of None \<Rightarrow> source_dir
                         | Some d \<Rightarrow> if d \<noteq> [] then d else source_dir)
        \<and> organize_by_type now s source_dir dest_dir = (Inr r, s1)
        \<and> path_ok (disk s1) source_dir2 \<and> path_ok (disk s1) target_dir2
        \<and> target_dir2 = (case dest_dir2 of None \<Rightarrow> source_dir2
                          | Some d \<Rightarrow> if d \<noteq> [] then d else source_dir2)
        \<and> organize_by_type now2 s1 source_dir2 dest_dir2 = (Inr r2, s2) \<longrightarrow>
        (\<exists>fs1 names operations.
           (if \<not> os_path_exists (disk s1) target_dir2
            then os_makedirs (disk s1) target_dir2 False else Inr (disk s1)) = Inr fs1
           \<and> os_listdir fs1 source_dir2 = Inr names
           \<and> organize_loop fs1 source_dir2 target_dir2
               (filter (\<lambda>f. os_path_isfile fs1 (join source_dir2 f)) names) []
                = (Inr operations, disk s2)
           \<and> map mv_source operations
                = map (join source_dir2) (filter (\<lambda>f. os_path_isfile fs1 (join source_dir2 f)) names)
           \<and> history_file s2 =
                Stored [\<lparr>op_timestamp = now2, op_type = ''organize_by_type'',
                         op_source_dir = source_dir2, op_target_dir = target_dir2,
                         op_operations = operations\<rparr>]
           \<and> history (load_history s2) =
                [\<lparr>op_timestamp = now2, op_type = ''organize_by_type'',
                  op_source_dir = source_dir2, op_target_dir = target_dir2,
                  op_operations = operations\<rparr>]
           \<and> (fst (undo_last_operation now3 s2) \<longrightarrow>
                (\<exists>fs3. restore_loop (disk s2) (rev operations) = (Inr (), fs3)
                   \<and> disk (snd (undo_last_operation now3 s2))
                       = walk_cleanup [Visit target_dir2] fs3)
                \<and> history_file (snd (undo_last_operation now3 s2)) = Stored []))"
  proof
    assume h: "path_ok (disk s) source_dir \<and> path_ok (disk s) target_dir
        \<and> target_dir = (case dest_dir of None \<Rightarrow> source_dir
                         | Some d \<Rightarrow> if d \<noteq> [] then d else source_dir)
        \<and> organize_by_type now s source_dir dest_dir = (Inr r, s1)
        \<and> path_ok (disk s1) source_dir2 \<and> path_ok (disk s1) target_dir2
        \<and> target_dir2 = (case dest_dir2 of None \<Rightarrow> source_dir2
                          | Some d \<Rightarrow> if d \<noteq> [] then d else source_dir2)
        \<and> organize_by_type now2 s1 source_dir2 dest_dir2 = (Inr r2, s2)"
    then have t2: "target_dir2 = (case dest_dir2 of None \<Rightarrow> source_dir2
                          | Some d \<Rightarrow> if d \<noteq> [] then d else source_dir2)"
      and o2: "organize_by_type now2 s1 source_dir2 dest_dir2 = (Inr r2, s2)" by simp_all
    from organize_by_type_stores[OF t2 o2] obtain fs1 names operations where
      p: "(if \<not> os_path_exists (disk s1) target_dir2
            then os_makedirs (disk s1) target_dir2 False else Inr (disk s1)) = Inr fs1"
      and n: "os_listdir fs1 source_dir2 = Inr names"
      and l: "organize_loop fs1 source_dir2 target_dir2
               (filter (\<lambda>f. os_path_isfile fs1 (join source_dir2 f)) names) []
                = (Inr operations, disk s2)"
      and m: "map mv_source operations
                = map (join source_dir2) (filter (\<lambda>f. os_path_isfile fs1 (join source_dir2 f)) names)"
      and hf: "history_file s2 =
                Stored [\<lparr>op_timestamp = now2, op_type = ''organize_by_type'',
                         op_source_dir = source_dir2, op_target_dir = target_dir2,
                         op_operations = operations\<rparr>]"
      by blast
    let ?b = "\<lparr>op_timestamp = now2, op_type = ''organize_by_type'',
                op_source_dir = source_dir2, op_target_dir = target_dir2,
                op_operations = operations\<rparr>"
    have ld: "history (load_history s2) = [?b]" using hf by (simp add: load_history_def)
    have u: "(\<exists>fs3. restore_loop (disk s2) (rev operations) = (Inr (), fs3)
                   \<and> disk (snd (undo_last_operation now3 s2))
                       = walk_cleanup [Visit target_dir2] fs3)
             \<and> history_file (snd (undo_last_operation now3 s2)) = Stored []"
      if "fst (undo_last_operation now3 s2)"
      using undo_last_operation_True[OF that] ld
      by (auto simp: update_timeline_def save_history_def)
    from p n l m hf ld u
    show "\<exists>fs1 names operations.
           (if \<not> os_path_exists (disk s1) target_dir2
            then os_makedirs (disk s1) target_dir2 False else Inr (disk s1)) = Inr fs1
           \<and> os_listdir fs1 source_dir2 = Inr names
           \<and> organize_loop fs1 source_dir2 target_dir2
               (filter (\<lambda>f. os_path_isfile fs1 (join source_dir2 f)) names) []
                = (Inr operations, disk s2)
           \<and> map mv_source operations
                = map (join source_dir2) (filter (\<lambda>f. os_path_isfile fs1 (join source_dir2 f)) names)
           \<and> history_file s2 =
                Stored [\<lparr>op_timestamp = now2, op_type = ''organize_by_type'',
                         op_source_dir = source_dir2, op_target_dir = target_dir2,
                         op_operations = operations\<rparr>]
           \<and> history (load_history s2) =
                [\<lparr>op_timestamp = now2, op_type = ''organize_by_type'',
                  op_source_dir = source_dir2, op_target_dir = target_dir2,
                  op_operations = operations\<rparr>]
           \<and> (fst (undo_last_operation now3 s2) \<longrightarrow>
                (\<exists>fs3. restore_loop (disk s2) (rev operations) = (Inr (), fs3)
                   \<and> disk (snd (undo_last_operation now3 s2))
                       = walk_cleanup [Visit target_dir2] fs3)
                \<and> history_file (snd (undo_last_operation now3 s2)) = Stored [])"
      by (intro exI[of _ fs1] exI[of _ names] exI[of _ operations]) simp
  qed
  from 1 2 3 4 show ?thesis by (intro conjI) assumption+
qed

text \<open>
  Two runs. In the first the directory \<open>T\<close> is organized and then the directory \<open>U\<close>: the
  history file holds the batch of \<open>U\<close> with its one record, and the undo moves \<open>d.png\<close>
  back and leaves \<open>a.jpg\<close> under \<open>T/images\<close>. In the second \<open>T\<close> is organized twice: the
  second call finds no regular file in \<open>T\<close>, the history file holds its batch with no
  record, and the undo returns \<open>True\<close> and restores nothing of the first call.
\<close>

theorem history_single_slot_witness:
  "history_file (snd (organize_by_type ''t2''
       (snd (organize_by_type ''t1'' two_dirs_start ''T'' None)) ''U'' None))
     = Stored [\<lparr>op_timestamp = ''t2'', op_type = ''organize_by_type'',
                op_source_dir = ''U'', op_target_dir = ''U'',
                op_operations = [\<lparr>mv_operation = ''move'', mv_source = ''U/d.png'',
                                   mv_destination = ''U/images/d.png''\<rparr>]\<rparr>]
   \<and> undo_last_operation ''t3''
        (snd (organize_by_type ''t2'' (snd (organize_by_type ''t1'' two_dirs_start ''T'' None)) ''U'' None))
      = (True,
         \<lparr>disk = [([''T''], Dir), ([''T'', ''images'', ''a.jpg''], File ''A''),
                  ([''U''], Dir), ([''U'', ''d.png''], File ''D''), ([''T'', ''images''], Dir)],
          history_file = Stored [],
          timeline_file = [OrganizeEntry ''t1'' ''organize_by_type'' 1 ''T'',
                           OrganizeEntry ''t2'' ''organize_by_type'' 1 ''U'',
                           UndoEntry ''t3'' ''U''],
          history = [], last_operation = None\<rparr>)
   \<and> history_file (snd (organize_by_type ''t2''
       (snd (organize_by_type ''t1'' two_dirs_start ''T'' None)) ''T'' None))
     = Stored [\<lparr>op_timestamp = ''t2'', op_type = ''organize_by_type'',
                op_source_dir = ''T'', op_target_dir = ''T'', op_operations = []\<rparr>]
   \<and> undo_last_operation ''t3''
        (snd (organize_by_type ''t2'' (snd (organize_by_type ''t1'' two_dirs_start ''T'' None)) ''T'' None))
      = (True,
         \<lparr>disk = [([''T''], Dir), ([''T'', ''images'', ''a.jpg''], File ''A''),
                  ([''U''], Dir), ([''U'', ''d.png''], File ''D''), ([''T'', ''images''], Dir)],
          history_file = Stored [],
          timeline_file = [OrganizeEntry ''t1'' ''organize_by_type'' 1 ''T'',
                           OrganizeEntry ''t2'' ''organize_by_type'' 0 ''T'',
                           UndoEntry ''t3'' ''T''],
          history = [], last_operation = None\<rparr>)"
proof -
  let ?r1 = "organize_by_type ''t1'' two_dirs_start ''T'' None"
  let ?fs1 = "[([''T''], Dir), ([''T'', ''images'', ''a.jpg''], File ''A''),
               ([''U''], Dir), ([''U'', ''d.png''], File ''D''), ([''T'', ''images''], Dir)]"
  let ?r2 = "organize_by_type ''t2'' (snd ?r1) ''U'' None"
  let ?r3 = "organize_by_type ''t2'' (snd ?r1) ''T'' None"
  have p0: "path_ok (disk two_dirs_start) ''T''" by code_simp
  have d1: "disk (snd ?r1) = ?fs1" by code_simp
  have pu: "path_ok (disk (snd ?r1)) ''U''" by code_simp
  have pt: "path_ok (disk (snd ?r1)) ''T''" by code_simp
  have tt: "''T'' = (case None :: string option of None \<Rightarrow> ''T''
                       | Some d \<Rightarrow> if d \<noteq> [] then d else ''T'')" by simp
  have tu: "''U'' = (case None :: string option of None \<Rightarrow> ''U''
                       | Some d \<Rightarrow> if d \<noteq> [] then d else ''U'')" by simp
  have a: "fst ?r1 = Inr None" by code_simp
  have b: "fst ?r2 = Inr None" by code_simp
  have c: "fst ?r3 = Inr None" by code_simp
  from a have e1: "?r1 = (Inr None, snd ?r1)" by (simp add: prod_eq_iff)
  from b have e2: "?r2 = (Inr None, snd ?r2)" by (simp add: prod_eq_iff)
  from c have e3: "?r3 = (Inr None, snd ?r3)" by (simp add: prod_eq_iff)
  have xu: "os_path_exists ?fs1 ''U''" by code_simp
  have xt: "os_path_exists ?fs1 ''T''" by code_simp
  have nu: "os_listdir ?fs1 ''U'' = Inr [''d.png'']" by code_simp
  have nt: "os_listdir ?fs1 ''T'' = Inr [''images'']" by code_simp
  have ku: "filter (\<lambda>f. os_path_isfile ?fs1 (join ''U'' f)) [''d.png''] = [''d.png'']"
    by code_simp
  have kt: "filter (\<lambda>f. os_path_isfile ?fs1 (join ''T'' f)) [''images''] = []"
    by code_simp
  have lu: "fst (organize_loop ?fs1 ''U'' ''U'' [''d.png''] [])
              = Inr [\<lparr>mv_operation = ''move'', mv_source = ''U/d.png'',
                      mv_destination = ''U/images/d.png''\<rparr>]"
    by code_simp
  have uu: "undo_last_operation ''t3'' (snd ?r2)
      = (True,
         \<lparr>disk = [([''T''], Dir), ([''T'', ''images'', ''a.jpg''], File ''A''),
                  ([''U''], Dir), ([''U'', ''d.png''], File ''D''), ([''T'', ''images''], Dir)],
          history_file = Stored [],
          timeline_file = [OrganizeEntry ''t1'' ''organize_by_type'' 1 ''T'',
                           OrganizeEntry ''t2'' ''organize_by_type'' 1 ''U'',
                           UndoEntry ''t3'' ''U''],
          history = [], last_operation = None\<rparr>)"
    by code_simp
  have ut: "undo_last_operation ''t3'' (snd ?r3)
      = (True,
         \<lparr>disk = [([''T''], Dir), ([''T'', ''images'', ''a.jpg''], File ''A''),
                  ([''U''], Dir), ([''U'', ''d.png''], File ''D''), ([''T'', ''images''], Dir)],
          history_file = Stored [],
          timeline_file = [OrganizeEntry ''t1'' ''organize_by_type'' 1 ''T'',
                           OrganizeEntry ''t2'' ''organize_by_type'' 0 ''T'',
                           UndoEntry ''t3'' ''T''],
          history = [], last_operation = None\<rparr>)"
    by code_simp
  from history_single_slot[where s = two_dirs_start and source_dir = "''T''"
      and target_dir = "''T''" and dest_dir = None and now = "''t1''" and r = None
      and ?s1.0 = "snd ?r1" and ?source_dir2.0 = "''U''" and ?target_dir2.0 = "''U''"
      and ?dest_dir2.0 = None and ?now2.0 = "''t2''" and ?r2.0 = None and ?s2.0 = "snd ?r2"
      and ?now3.0 = "''t3''"] p0 tt e1 pu tu e2
  obtain fs1 names operations where
    1: "(if \<not> os_path_exists (disk (snd ?r1)) ''U''
         then os_makedirs (disk (snd ?r1)) ''U'' False else Inr (disk (snd ?r1))) = Inr fs1"
    and 2: "os_listdir fs1 ''U'' = Inr names"
    and 3: "organize_loop fs1 ''U'' ''U''
               (filter (\<lambda>f. os_path_isfile fs1 (join ''U'' f)) names) []
                = (Inr operations, disk (snd ?r2))"
    and 4: "history_file (snd ?r2) =
                Stored [\<lparr>op_timestamp = ''t2'', op_type = ''organize_by_type'',
                         op_source_dir = ''U'', op_target_dir = ''U'',
                         op_operations = operations\<rparr>]"
    by blast
  from 1 xu have f1: "fs1 = ?fs1" by (simp add: d1)
  with 2 nu have "names = [''d.png'']" by simp
  with 3 ku lu f1 have "operations = [\<lparr>mv_operation = ''move'', mv_source = ''U/d.png'',
                      mv_destination = ''U/images/d.png''\<rparr>]" by simp
  with 4 have A: "history_file (snd ?r2)
     = Stored [\<lparr>op_timestamp = ''t2'', op_type = ''organize_by_type'',
                op_source_dir = ''U'', op_target_dir = ''U'',
                op_operations = [\<lparr>mv_operation = ''move'', mv_source = ''U/d.png'',
                                   mv_destination = ''U/images/d.png''\<rparr>]\<rparr>]" by simp
  from history_single_slot[where s = two_dirs_start and source_dir = "''T''"
      and target_dir = "''T''" and dest_dir = None and now = "''t1''" and r = None
      and ?s1.0 = "snd ?r1" and ?source_dir2.0 = "''T''" and ?target_dir2.0 = "''T''"
      and ?dest_dir2.0 = None and ?now2.0 = "''t2''" and ?r2.0 = None and ?s2.0 = "snd ?r3"
      and ?now3.0 = "''t3''"] p0 tt e1 pt e3
  obtain fs1' names' operations' where
    1: "(if \<not> os_path_exists (disk (snd ?r1)) ''T''
         then os_makedirs (disk (snd ?r1)) ''T'' False else Inr (disk (snd ?r1))) = Inr fs1'"
    and 2: "os_listdir fs1' ''T'' = Inr names'"
    and 3: "organize_loop fs1' ''T'' ''T''
               (filter (\<lambda>f. os_path_isfile fs1' (join ''T'' f)) names') []
                = (Inr operations', disk (snd ?r3))"
    and 4: "history_file (snd ?r3) =
                Stored [\<lparr>op_timestamp = ''t2'', op_type = ''organize_by_type'',
                         op_source_dir = ''T'', op_target_dir = ''T'',
                         op_operations = operations'\<rparr>]"
    by blast
  from 1 xt have f1: "fs1' = ?fs1" by (simp add: d1)
  with 2 nt have "names' = [''images'']" by simp
  with 3 kt f1 have "operations' = []" by simp
  with 4 have B: "history_file (snd ?r3)
     = Stored [\<lparr>op_timestamp = ''t2'', op_type = ''organize_by_type'',
                op_source_dir = ''T'', op_target_dir = ''T'', op_operations = []\<rparr>]" by simp
  from A uu B ut show ?thesis by (intro conjI) assumption+
qed

section \<open>Well-formed trees\<close>

text \<open>
  A table is a tree when no path is entered twice and every entry lies in a directory of
  the table (or in the root). In a tree nothing lies below a file, so moving a file is
  the change of one key.
\<close>

definition tree_ok :: "filesystem \<Rightarrow> bool" where
  "tree_ok fs =
     (distinct (map fst fs) \<and>
      list_all (\<lambda>(k, n). k \<noteq> [] \<and> lookup fs (butlast k) = Some Dir) fs)"

lemma tree_ok_parent:
  "tree_ok fs \<Longrightarrow> (k, n) \<in> set fs \<Longrightarrow> k \<noteq> [] \<and> lookup fs (butlast k) = Some Dir"
  by (auto simp: tree_ok_def list_all_iff)

lemma lookup_in_set: "q \<noteq> [] \<Longrightarrow> lookup fs q = Some n \<Longrightarrow> (q, n) \<in> set fs"
  by (auto simp: lookup_def dest: map_of_SomeD)

lemma lookup_None_iff: "lookup fs q = None \<longleftrightarrow> q \<noteq> [] \<and> q \<notin> fst ` set fs"
  by (auto simp: lookup_def map_of_eq_None_iff)

lemma tree_ok_lookup: "tree_ok fs \<Longrightarrow> (k, n) \<in> set fs \<Longrightarrow> lookup fs k = Some n"
  by (auto simp: tree_ok_def lookup_def list_all_iff)

lemma below_is_dir:
  "tree_ok fs \<Longrightarrow> (k, n) \<in> set fs \<Longrightarrow> strict_prefix a k \<Longrightarrow> lookup fs a = Some Dir"
proof (induction k arbitrary: n rule: rev_induct)
  case Nil
  then show ?case by simp
next
  case (snoc x ks)
  from tree_ok_parent[OF snoc.prems(1,2)] have p: "lookup fs ks = Some Dir" by simp
  from snoc.prems(3) have "prefix a ks" by (auto simp: strict_prefix_def)
  show ?case
  proof (cases "a = ks")
    case True
    with p show ?thesis by simp
  next
    case False
    with \<open>prefix a ks\<close> have sp: "strict_prefix a ks" by (simp add: strict_prefix_def)
    then have "ks \<noteq> []" by auto
    from this p have "(ks, Dir) \<in> set fs" by (rule lookup_in_set)
    from snoc.IH[OF snoc.prems(1) this sp] show ?thesis .
  qed
qed

lemma tree_ok_snoc:
  assumes "tree_ok fs" "lookup fs q = None" "lookup fs (butlast q) = Some Dir"
  shows "tree_ok (fs @ [(q, Dir)])"
proof -
  from assms(2) have q: "q \<noteq> []" "q \<notin> fst ` set fs" by (simp_all add: lookup_None_iff)
  have "lookup (fs @ [(q, Dir)]) (butlast k) = Some Dir" if "(k, n) \<in> set fs" for k n
    using tree_ok_parent[OF assms(1) that] by (auto intro: lookup_append_Some)
  moreover have "lookup (fs @ [(q, Dir)]) (butlast q) = Some Dir"
    using assms(3) by (rule lookup_append_Some)
  ultimately show ?thesis
    using assms(1) q tree_ok_parent[OF assms(1)]
    by (auto simp: tree_ok_def list_all_iff)
qed

lemma ensure_dirs_tree_ok:
  "tree_ok fs \<Longrightarrow> lookup fs pre = Some Dir \<Longrightarrow> ensure_dirs fs pre xs = Inr fs1
     \<Longrightarrow> tree_ok fs1 \<and> lookup fs1 (pre @ xs) = Some Dir"
proof (induction fs pre xs rule: ensure_dirs.induct)
  case (1 fs pre)
  then show ?case by simp
next
  case (2 fs pre x xs)
  show ?case
  proof (cases "lookup fs (pre @ [x])")
    case None
    have t: "tree_ok (fs @ [(pre @ [x], Dir)])"
      using "2.prems"(1,2) None by (intro tree_ok_snoc) simp_all
    have l: "lookup (fs @ [(pre @ [x], Dir)]) (pre @ [x]) = Some Dir"
      using None by (rule lookup_snoc_new)
    from "2.IH"(1)[OF None t l] "2.prems"(3) None show ?thesis by simp
  next
    case (Some n)
    with "2.prems" "2.IH"(2)[OF Some] show ?thesis by (cases n) auto
  qed
qed

lemma os_makedirs_tree_ok:
  assumes "tree_ok fs" "os_makedirs fs name ok = Inr fs1"
  shows "tree_ok fs1"
proof (cases "ensure_dirs fs [] (butlast (resolve name))")
  case (Inl e)
  with assms(2) show ?thesis by (simp add: os_makedirs_def split: if_splits)
next
  case (Inr fs0)
  have "lookup fs [] = Some Dir" by (simp add: lookup_def)
  from ensure_dirs_tree_ok[OF assms(1) this Inr]
  have t: "tree_ok fs0" and p: "lookup fs0 (butlast (resolve name)) = Some Dir" by simp_all
  show ?thesis
  proof (cases "lookup fs0 (resolve name)")
    case None
    with assms(2) Inr have "fs1 = fs0 @ [(resolve name, Dir)]"
      by (simp add: os_makedirs_def split: if_splits)
    with t p None show ?thesis by (auto intro: tree_ok_snoc)
  next
    case (Some n)
    with assms(2) Inr have "fs1 = fs0"
      by (cases n) (simp_all add: os_makedirs_def split: if_splits)
    with t show ?thesis by simp
  qed
qed

lemma map_of_rekey:
  "b \<notin> fst ` set xs \<Longrightarrow> a \<noteq> b \<Longrightarrow>
   map_of (map (\<lambda>(k, n). if k = a then (b, n) else (k, n)) xs) q =
     (if q = b then map_of xs a else if q = a then None else map_of xs q)"
proof (induction xs arbitrary: q)
  case Nil
  then show ?case by simp
next
  case (Cons x xs)
  obtain k n where x: "x = (k, n)" by (cases x)
  from Cons.prems have "b \<notin> fst ` set xs" "k \<noteq> b" by (auto simp: x)
  with Cons.IH Cons.prems(2) show ?case by (simp add: x)
qed

lemma move_file_entries:
  assumes "tree_ok fs" "lookup fs a = Some (File c)" "lookup fs b = None"
  shows "move_entries a b fs = map (\<lambda>(k, n). if k = a then (b, n) else (k, n)) fs"
proof -
  have nb: "b \<notin> fst ` set fs" using assms(3) by (simp add: lookup_None_iff)
  then have f: "filter (\<lambda>(k, n). k \<noteq> b) fs = fs"
    by (intro filter_True) force
  have "prefix a k \<longleftrightarrow> k = a" if "(k, n) \<in> set fs" for k n
  proof
    assume "prefix a k"
    show "k = a"
    proof (rule ccontr)
      assume "k \<noteq> a"
      with \<open>prefix a k\<close> have "strict_prefix a k" by (simp add: strict_prefix_def)
      from below_is_dir[OF assms(1) that this] assms(2) show False by simp
    qed
  qed simp
  then show ?thesis unfolding move_entries_def f
    by (intro map_cong) auto
qed

lemma move_file_lookup:
  assumes "tree_ok fs" "lookup fs a = Some (File c)" "lookup fs b = None"
  shows "lookup (move_entries a b fs) q =
           (if q = b then Some (File c) else if q = a then None else lookup fs q)"
proof -
  have nb: "b \<notin> fst ` set fs" "b \<noteq> []" using assms(3) by (simp_all add: lookup_None_iff)
  have a: "a \<noteq> []" "a \<noteq> b" using assms(2,3) by (auto simp: lookup_def)
  show ?thesis
    unfolding move_file_entries[OF assms] lookup_def
    using map_of_rekey[OF nb(1) a(2), of q] nb a assms(2) by (auto simp: lookup_def)
qed

lemma shutil_move_file:
  assumes "os_path_isfile fs src" "\<not> os_path_exists fs dst" "shutil_move fs src dst = Inr fs1"
  shows "fs1 = move_entries (resolve src) (resolve dst) fs \<and> lookup fs (resolve dst) = None"
proof -
  from assms(1) obtain c where c: "lookup fs (resolve src) = Some (File c)" "src \<noteq> []"
    by (auto simp: os_path_isfile_def split: option.splits node.splits)
  from assms(2) have nd: "\<not> os_path_isdir fs dst"
    by (auto simp: os_path_exists_def os_path_isdir_def)
  with assms(3) have r: "os_rename fs src dst = Inr fs1" by (simp add: shutil_move_def)
  then have d: "dst \<noteq> []" by (auto simp: os_rename_def split: if_splits)
  with assms(2) have n: "lookup fs (resolve dst) = None" by (simp add: os_path_exists_def)
  with c have ne: "resolve src \<noteq> resolve dst" by auto
  show ?thesis
  proof (cases "lookup fs (butlast (resolve dst))")
    case None
    with r c d show ?thesis by (simp add: os_rename_def)
  next
    case (Some p)
    show ?thesis
    proof (cases p)
      case (File x)
      with Some r c d show ?thesis by (simp add: os_rename_def)
    next
      case Dir
      with Some r c d n ne show ?thesis
        by (simp add: os_rename_def split: if_splits)
    qed
  qed
qed

section \<open>Unique paths and collisions\<close>

lemma unique_loop_spec:
  "\<exists>k\<ge>counter.
      unique_loop fs base ext counter = base @ ''_'' @ str_nat k @ ext
      \<and> \<not> os_path_exists fs (base @ ''_'' @ str_nat k @ ext)
      \<and> (\<forall>j. counter \<le> j \<and> j < k \<longrightarrow> os_path_exists fs (base @ ''_'' @ str_nat j @ ext))"
proof (induction fs base ext counter rule: unique_loop.induct)
  case (1 fs base ext counter)
  show ?case
  proof (cases "os_path_exists fs (base @ ''_'' @ str_nat counter @ ext)")
    case True
    from 1[OF True] obtain k where k: "counter + 1 \<le> k"
      "unique_loop fs base ext (counter + 1) = base @ ''_'' @ str_nat k @ ext"
      "\<not> os_path_exists fs (base @ ''_'' @ str_nat k @ ext)"
      "\<forall>j. counter + 1 \<le> j \<and> j < k \<longrightarrow> os_path_exists fs (base @ ''_'' @ str_nat j @ ext)"
      by blast
    have u: "unique_loop fs base ext counter = base @ ''_'' @ str_nat k @ ext"
      using True k(2) by (subst unique_loop.simps) simp
    have "os_path_exists fs (base @ ''_'' @ str_nat j @ ext)" if "counter \<le> j" "j < k" for j
    proof (cases "j = counter")
      case True
      with \<open>os_path_exists fs (base @ ''_'' @ str_nat counter @ ext)\<close> show ?thesis by simp
    next
      case False
      with that k(4) show ?thesis by simp
    qed
    with u k(1,3) show ?thesis by (intro exI[of _ k]) auto
  next
    case False
    then have "unique_loop fs base ext counter = base @ ''_'' @ str_nat counter @ ext"
      by (subst unique_loop.simps) simp
    with False show ?thesis by (intro exI[of _ counter]) auto
  qed
qed

lemma get_unique_path_free: "\<not> os_path_exists fs (get_unique_path fs file_path)"
  using unique_loop_spec[of 1 fs "fst (splitext file_path)" "snd (splitext file_path)"]
  by (auto simp: get_unique_path_def split: prod.splits)


lemma rfind_drop: "rfind p c < int i \<Longrightarrow> c \<notin> set (drop i p)"
proof (induction p arbitrary: i)
  case Nil
  then show ?case by simp
next
  case (Cons x xs)
  show ?case
  proof (cases i)
    case 0
    with Cons.prems have r: "rfind xs c < 0" and x: "x \<noteq> c"
      by (auto simp: Let_def split: if_splits)
    from Cons.IH[of 0] r have "c \<notin> set xs" by simp
    with x 0 show ?thesis by simp
  next
    case (Suc j)
    with Cons.prems have "rfind xs c < int j"
      by (auto simp: Let_def split: if_splits)
    from Cons.IH[OF this] Suc show ?thesis by simp
  qed
qed

lemma splitext_parts: "p = fst (splitext p) @ snd (splitext p) \<and> sep \<notin> set (snd (splitext p))"
proof (cases "rfind p sep < rfind p extsep")
  case True
  then have "rfind p sep < int (nat (rfind p extsep))" by simp
  then have "sep \<notin> set (drop (nat (rfind p extsep)) p)" by (rule rfind_drop)
  then show ?thesis by (simp add: splitext_def Let_def)
next
  case False
  then show ?thesis by (simp add: splitext_def Let_def)
qed

text \<open>
  The candidates of the generator, and so its result, are path strings of the kind that
  the model resolves as the system does whenever the path handed in is.
\<close>

lemma path_ok_candidate:
  assumes "''..'' \<notin> set (splitc p)"
  shows "path_ok fs (fst (splitext p) @ ''_'' @ str_nat k @ snd (splitext p))"
proof -
  let ?b = "fst (splitext p)" and ?e = "snd (splitext p)"
  let ?t = "''_'' @ str_nat k @ ?e"
  from splitext_parts[of p] have p: "p = ?b @ ?e" and e: "sep \<notin> set ?e" by simp_all
  have t: "sep \<notin> set ?t" using e str_nat_no_sep[of k] by (simp add: sep_def)
  have st: "splitc ?t = [?t]" using t by (rule splitc_no_sep)
  have se: "splitc ?e = [?e]" using e by (rule splitc_no_sep)
  have c: "splitc (?b @ ?t) = butlast (splitc ?b) @ [last (splitc ?b) @ ?t]"
    using splitc_append[of ?b ?t] st by simp
  have "splitc (?b @ ?e) = butlast (splitc ?b) @ [last (splitc ?b) @ ?e]"
    using splitc_append[of ?b ?e] se by simp
  with p have "set (butlast (splitc ?b)) \<subseteq> set (splitc p)" by (metis Un_upper1 set_append)
  with assms have n: "''..'' \<notin> set (butlast (splitc ?b))" by blast
  have u: "CHR ''_'' \<in> set (last (splitc ?b) @ ?t)" by simp
  have w: "last (splitc ?b) @ ?t \<noteq> w" if "CHR ''_'' \<notin> set w" for w
    using u that by blast
  have l: "last (splitc ?b) @ ?t \<noteq> []" "last (splitc ?b) @ ?t \<noteq> ''.''"
    "last (splitc ?b) @ ?t \<noteq> ''..''"
    by (rule w, simp)+
  from n l(3) have "''..'' \<notin> set (splitc (?b @ ?t))" unfolding c by simp
  moreover have "last (splitc (?b @ ?t)) = last (splitc ?b) @ ?t" unfolding c by simp
  ultimately show ?thesis using l unfolding path_ok_def by simp
qed

lemma get_unique_path_ok:
  assumes "path_ok fs p"
  shows "path_ok fs (get_unique_path fs p)"
proof (cases "os_path_exists fs p")
  case False
  with assms show ?thesis by (simp add: get_unique_path_def)
next
  case True
  from assms have n: "''..'' \<notin> set (splitc p)" by (simp add: path_ok_def)
  from unique_loop_spec[of 1 fs "fst (splitext p)" "snd (splitext p)"] obtain k where
    "unique_loop fs (fst (splitext p)) (snd (splitext p)) 1
       = fst (splitext p) @ ''_'' @ str_nat k @ snd (splitext p)" by blast
  with True path_ok_candidate[OF n, of fs k] show ?thesis
    by (simp add: get_unique_path_def case_prod_beta)
qed

lemma organize_file_moves:
  assumes "tree_ok fs" "os_path_isfile fs (join source_dir file)"
    "organize_file fs source_dir target_dir file = (Inr r, fs1)"
  shows "\<not> os_path_exists fs (mv_destination r)
       \<and> mv_source r = join source_dir file
       \<and> lookup fs1 (resolve (mv_destination r)) = lookup fs (resolve (mv_source r))
       \<and> lookup fs1 (resolve (mv_source r)) = None
       \<and> (\<forall>q c. q \<noteq> resolve (mv_source r) \<and> lookup fs q = Some (File c)
              \<longrightarrow> lookup fs1 q = Some (File c))"
proof -
  from organize_file_Inr[OF assms(3)] obtain fsm where
    m: "os_makedirs fs (join target_dir (category_of file)) True = Inr fsm"
    and mv: "shutil_move fsm (join source_dir file)
              (get_unique_path fsm (join (join target_dir (category_of file)) file)) = Inr fs1"
    and r: "r = \<lparr>mv_operation = ''move'', mv_source = join source_dir file,
                 mv_destination = get_unique_path fsm (join (join target_dir (category_of file)) file)\<rparr>"
    by blast
  let ?a = "resolve (join source_dir file)"
  let ?new = "get_unique_path fsm (join (join target_dir (category_of file)) file)"
  let ?b = "resolve ?new"
  from assms(2) obtain c where c: "lookup fs ?a = Some (File c)" "join source_dir file \<noteq> []"
    by (auto simp: os_path_isfile_def split: option.splits node.splits)
  have cm: "lookup fsm ?a = Some (File c)" using m c(1) by (rule os_makedirs_lookup)
  then have fm: "os_path_isfile fsm (join source_dir file)"
    using c(2) by (simp add: os_path_isfile_def)
  have free: "\<not> os_path_exists fsm ?new" by (rule get_unique_path_free)
  from shutil_move_file[OF fm free mv]
  have fs1: "fs1 = move_entries ?a ?b fsm" and nb: "lookup fsm ?b = None" by simp_all
  have tm: "tree_ok fsm" using assms(1) m by (rule os_makedirs_tree_ok)
  note look = move_file_lookup[OF tm cm nb, folded fs1]
  have nbfs: "lookup fs ?b = None"
  proof (cases "lookup fs ?b")
    case (Some v)
    from os_makedirs_lookup[OF m this] nb show ?thesis by simp
  qed simp
  have ab: "?a \<noteq> ?b" using cm nb by auto
  have 1: "\<not> os_path_exists fs (mv_destination r)"
    using nbfs by (simp add: r os_path_exists_def)
  have 2: "lookup fs1 (resolve (mv_destination r)) = lookup fs (resolve (mv_source r))"
    using look[of ?b] c(1) by (simp add: r)
  have 3: "lookup fs1 (resolve (mv_source r)) = None"
    using look[of ?a] ab by (simp add: r)
  have 4: "lookup fs1 q = Some (File c')" if "q \<noteq> resolve (mv_source r)" "lookup fs q = Some (File c')" for q c'
  proof -
    have qm: "lookup fsm q = Some (File c')" using m that(2) by (rule os_makedirs_lookup)
    with nb have "q \<noteq> ?b" by auto
    with look[of q] that(1) qm show ?thesis by (simp add: r)
  qed
  from 1 2 3 4 show ?thesis by (simp add: r)
qed

text \<open>
  Claim C5. \<open>_get_unique_path\<close> returns a path at which nothing exists unchanged; for a
  path that exists it returns the candidate \<open>base_k ext\<close> with the least \<open>k \<ge> 1\<close> at which
  nothing exists, where \<open>(base, ext)\<close> is \<open>splitext\<close> of the path; in both cases nothing
  exists at the path returned, which is again a path that \<open>path_ok\<close> admits. The step that organizes one file records as destination the
  path that the generator returns for the file's name in the category folder, on the tree
  that holds this folder; when the folder already holds an entry of that name, this is the
  name with a numeric suffix \<open>_k\<close> before the extension. The destination was free: the
  file arrives there with its content, and every other file of the tree keeps its path and
  its content, among them the file of the same name that the category folder held. The
  path strings are the ones \<open>path_ok\<close> admits, and the tree is well formed.
\<close>

theorem unique_path_no_overwrite:
  "(path_ok fs p \<and> \<not> os_path_exists fs p \<longrightarrow> get_unique_path fs p = p)
   \<and> (path_ok fs p \<and> os_path_exists fs p \<longrightarrow>
        (\<exists>k\<ge>1. get_unique_path fs p = fst (splitext p) @ ''_'' @ str_nat k @ snd (splitext p)
           \<and> (\<forall>j. 1 \<le> j \<and> j < k \<longrightarrow>
                 os_path_exists fs (fst (splitext p) @ ''_'' @ str_nat j @ snd (splitext p)))))
   \<and> (path_ok fs p \<longrightarrow>
        path_ok fs (get_unique_path fs p) \<and> \<not> os_path_exists fs (get_unique_path fs p))
   \<and> (tree_ok fs \<and> path_ok fs source_dir \<and> path_ok fs target_dir \<and> valid_name file
        \<and> os_path_isfile fs (join source_dir file)
        \<and> organize_file fs source_dir target_dir file = (Inr r, fs1) \<longrightarrow>
        (\<exists>fsm. os_makedirs fs (join target_dir (category_of file)) True = Inr fsm
           \<and> mv_destination r
               = get_unique_path fsm (join (join target_dir (category_of file)) file))
        \<and> (os_path_exists fs (join (join target_dir (category_of file)) file) \<longrightarrow>
             (\<exists>k\<ge>1. mv_destination r =
                  fst (splitext (join (join target_dir (category_of file)) file))
                    @ ''_'' @ str_nat k
                    @ snd (splitext (join (join target_dir (category_of file)) file))))
        \<and> \<not> os_path_exists fs (mv_destination r)
        \<and> mv_source r = join source_dir file
        \<and> lookup fs1 (resolve (mv_destination r)) = lookup fs (resolve (mv_source r))
        \<and> lookup fs1 (resolve (mv_source r)) = None
        \<and> (\<forall>q c. q \<noteq> resolve (mv_source r) \<and> lookup fs q = Some (File c)
               \<longrightarrow> lookup fs1 q = Some (File c)))"
proof -
  have 1: "path_ok fs p \<and> \<not> os_path_exists fs p \<longrightarrow> get_unique_path fs p = p"
    by (simp add: get_unique_path_def)
  have 2: "path_ok fs p \<and> os_path_exists fs p \<longrightarrow>
        (\<exists>k\<ge>1. get_unique_path fs p = fst (splitext p) @ ''_'' @ str_nat k @ snd (splitext p)
           \<and> (\<forall>j. 1 \<le> j \<and> j < k \<longrightarrow>
                 os_path_exists fs (fst (splitext p) @ ''_'' @ str_nat j @ snd (splitext p))))"
    using unique_loop_spec[of 1 fs "fst (splitext p)" "snd (splitext p)"]
    by (auto simp: get_unique_path_def split: prod.splits)
  have 3: "path_ok fs p \<longrightarrow>
        path_ok fs (get_unique_path fs p) \<and> \<not> os_path_exists fs (get_unique_path fs p)"
    by (simp add: get_unique_path_free get_unique_path_ok)
  have 4: "tree_ok fs \<and> path_ok fs source_dir \<and> path_ok fs target_dir \<and> valid_name file
        \<and> os_path_isfile fs (join source_dir file)
        \<and> organize_file fs source_dir target_dir file = (Inr r, fs1) \<longrightarrow>
        (\<exists>fsm. os_makedirs fs (join target_dir (category_of file)) True = Inr fsm
           \<and> mv_destination r
               = get_unique_path fsm (join (join target_dir (category_of file)) file))
        \<and> (os_path_exists fs (join (join target_dir (category_of file)) file) \<longrightarrow>
             (\<exists>k\<ge>1. mv_destination r =
                  fst (splitext (join (join target_dir (category_of file)) file))
                    @ ''_'' @ str_nat k
                    @ snd (splitext (join (join target_dir (category_of file)) file))))
        \<and> \<not> os_path_exists fs (mv_destination r)
        \<and> mv_source r = join source_dir file
        \<and> lookup fs1 (resolve (mv_destination r)) = lookup fs (resolve (mv_source r))
        \<and> lookup fs1 (resolve (mv_source r)) = None
        \<and> (\<forall>q c. q \<noteq> resolve (mv_source r) \<and> lookup fs q = Some (File c)
               \<longrightarrow> lookup fs1 q = Some (File c))"
  proof
    assume h: "tree_ok fs \<and> path_ok fs source_dir \<and> path_ok fs target_dir \<and> valid_name file
        \<and> os_path_isfile fs (join source_dir file)
        \<and> organize_file fs source_dir target_dir file = (Inr r, fs1)"
    then have t: "tree_ok fs" and f: "os_path_isfile fs (join source_dir file)"
      and o: "organize_file fs source_dir target_dir file = (Inr r, fs1)" by simp_all
    let ?p = "join (join target_dir (category_of file)) file"
    from organize_file_Inr[OF o] obtain fsm where
      m: "os_makedirs fs (join target_dir (category_of file)) True = Inr fsm"
      and d: "mv_destination r = get_unique_path fsm ?p"
      by auto
    have a: "\<exists>fsm. os_makedirs fs (join target_dir (category_of file)) True = Inr fsm
           \<and> mv_destination r = get_unique_path fsm ?p"
      using m d by blast
    have b: "\<exists>k\<ge>1. mv_destination r =
                  fst (splitext ?p) @ ''_'' @ str_nat k @ snd (splitext ?p)"
      if "os_path_exists fs ?p"
    proof -
      from m that have "os_path_exists fsm ?p" by (rule os_makedirs_exists)
      then show ?thesis
        using unique_loop_spec[of 1 fsm "fst (splitext ?p)" "snd (splitext ?p)"]
        by (auto simp: d get_unique_path_def split: prod.splits)
    qed
    from a b organize_file_moves[OF t f o]
    show "(\<exists>fsm. os_makedirs fs (join target_dir (category_of file)) True = Inr fsm
           \<and> mv_destination r
               = get_unique_path fsm (join (join target_dir (category_of file)) file))
        \<and> (os_path_exists fs (join (join target_dir (category_of file)) file) \<longrightarrow>
             (\<exists>k\<ge>1. mv_destination r =
                  fst (splitext (join (join target_dir (category_of file)) file))
                    @ ''_'' @ str_nat k
                    @ snd (splitext (join (join target_dir (category_of file)) file))))
        \<and> \<not> os_path_exists fs (mv_destination r)
        \<and> mv_source r = join source_dir file
        \<and> lookup fs1 (resolve (mv_destination r)) = lookup fs (resolve (mv_source r))
        \<and> lookup fs1 (resolve (mv_source r)) = None
        \<and> (\<forall>q c. q \<noteq> resolve (mv_source r) \<and> lookup fs q = Some (File c)
               \<longrightarrow> lookup fs1 q = Some (File c))"
      by blast
  qed
  from 1 2 3 4 show ?thesis by (intro conjI) assumption+
qed

text \<open>
  The directory \<open>S\<close> holds \<open>a.jpg\<close> with the content \<open>new\<close>, and \<open>D/images\<close> holds an
  \<open>a.jpg\<close> with the content \<open>old\<close>. Organizing \<open>S\<close> into \<open>D\<close> records \<open>D/images/a_1.jpg\<close>
  as the destination; afterwards both files are there, each with its content.
\<close>

theorem unique_path_no_overwrite_witness:
  "path_ok (disk collision_start) ''S/b.jpg''
   \<and> get_unique_path (disk collision_start) ''S/b.jpg'' = ''S/b.jpg''
   \<and> path_ok (disk collision_start) ''D/images/a.jpg''
   \<and> os_path_exists (disk collision_start) ''D/images/a.jpg''
   \<and> get_unique_path (disk collision_start) ''D/images/a.jpg'' = ''D/images/a_1.jpg''
   \<and> \<not> os_path_exists (disk collision_start) ''D/images/a_1.jpg''
   \<and> history_file (snd (organize_by_type ''t1'' collision_start ''S'' (Some ''D''))) =
        Stored [\<lparr>op_timestamp = ''t1'', op_type = ''organize_by_type'',
                 op_source_dir = ''S'', op_target_dir = ''D'',
                 op_operations = [\<lparr>mv_operation = ''move'', mv_source = ''S/a.jpg'',
                                    mv_destination = ''D/images/a_1.jpg''\<rparr>]\<rparr>]
   \<and> ''D/images/a_1.jpg'' = ''D/images/a'' @ ''_'' @ str_nat 1 @ ''.jpg''
   \<and> lookup (disk (snd (organize_by_type ''t1'' collision_start ''S'' (Some ''D''))))
        [''D'', ''images'', ''a.jpg''] = Some (File ''old'')
   \<and> lookup (disk (snd (organize_by_type ''t1'' collision_start ''S'' (Some ''D''))))
        [''D'', ''images'', ''a_1.jpg''] = Some (File ''new'')"
proof -
  let ?fs = "disk collision_start"
  let ?fs1 = "disk (snd (organize_by_type ''t1'' collision_start ''S'' (Some ''D'')))"
  let ?r = "\<lparr>mv_operation = ''move'', mv_source = ''S/a.jpg'',
             mv_destination = ''D/images/a_1.jpg''\<rparr>"
  have pb: "path_ok ?fs ''S/b.jpg''" by code_simp
  have pa: "path_ok ?fs ''D/images/a.jpg''" by code_simp
  have ps: "path_ok ?fs ''S''" by code_simp
  have pd: "path_ok ?fs ''D''" by code_simp
  have v: "valid_name ''a.jpg''" by code_simp
  have a: "\<not> os_path_exists ?fs ''S/b.jpg''" by code_simp
  have b: "os_path_exists ?fs ''D/images/a.jpg''" by code_simp
  have c: "get_unique_path ?fs ''D/images/a.jpg'' = ''D/images/a_1.jpg''" by code_simp
  have d: "tree_ok ?fs" by code_simp
  have e: "os_path_isfile ?fs (join ''S'' ''a.jpg'')" by code_simp
  have f: "organize_file ?fs ''S'' ''D'' ''a.jpg'' = (Inr ?r, ?fs1)" by code_simp
  have g: "lookup ?fs [''D'', ''images'', ''a.jpg''] = Some (File ''old'')" by code_simp
  have h: "resolve ''S/a.jpg'' = [''S'', ''a.jpg'']" "resolve ''D/images/a_1.jpg'' = [''D'', ''images'', ''a_1.jpg'']"
    "lookup ?fs [''S'', ''a.jpg''] = Some (File ''new'')"
    by code_simp+
  have hf: "history_file (snd (organize_by_type ''t1'' collision_start ''S'' (Some ''D''))) =
        Stored [\<lparr>op_timestamp = ''t1'', op_type = ''organize_by_type'',
                 op_source_dir = ''S'', op_target_dir = ''D'',
                 op_operations = [?r]\<rparr>]"
    by code_simp
  note t = unique_path_no_overwrite[where fs = ?fs and source_dir = "''S''" and ?file = "''a.jpg''"
      and target_dir = "''D''" and r = ?r and ?fs1.0 = ?fs1]
  from t[where p = "''S/b.jpg''"] pb a
  have 1: "get_unique_path ?fs ''S/b.jpg'' = ''S/b.jpg''" by blast
  from t[where p = "''D/images/a.jpg''"] pa
  have "\<not> os_path_exists ?fs (get_unique_path ?fs ''D/images/a.jpg'')" by blast
  with c have 2: "\<not> os_path_exists ?fs ''D/images/a_1.jpg''" by simp
  from t[where p = "''D/images/a.jpg''"] d ps pd v e f
  have 3: "lookup ?fs1 (resolve (mv_destination ?r)) = lookup ?fs (resolve (mv_source ?r))"
    and 4: "\<forall>q c. q \<noteq> resolve (mv_source ?r) \<and> lookup ?fs q = Some (File c)
               \<longrightarrow> lookup ?fs1 q = Some (File c)"
    by blast+
  from 3 h have 5: "lookup ?fs1 [''D'', ''images'', ''a_1.jpg''] = Some (File ''new'')" by simp
  from 4 g h have 6: "lookup ?fs1 [''D'', ''images'', ''a.jpg''] = Some (File ''old'')" by simp
  have 8: "''D/images/a_1.jpg'' = ''D/images/a'' @ ''_'' @ str_nat 1 @ ''.jpg''" by code_simp
  from pb 1 pa b c 2 hf 8 6 5 show ?thesis by (intro conjI) assumption+
qed

section \<open>Paths built by join, and moving a file to a free path\<close>

lemma rfind_absent: "c \<notin> set s \<Longrightarrow> rfind s c = - 1"
  by (induction s) (auto simp: Let_def)

lemma rfind_last: "c \<notin> set t \<Longrightarrow> rfind (x @ c # t) c = int (length x)"
  by (induction x) (auto simp: Let_def rfind_absent)

lemma resolve_snoc_sep: "resolve (x @ [sep]) = resolve x"
  using splitc_sep[of x "[]"] by (simp add: resolve_def)

lemma resolve_replicate_sep: "resolve (x @ replicate n sep) = resolve x"
proof (induction n)
  case 0
  then show ?case by simp
next
  case (Suc n)
  have "x @ replicate (Suc n) sep = (x @ replicate n sep) @ [sep]"
    by (simp add: replicate_append_same)
  with Suc resolve_snoc_sep[of "x @ replicate n sep"] show ?case by simp
qed

lemma rstrip_sep_decomp: "\<exists>n. s = rstrip_sep s @ replicate n sep"
proof -
  let ?t = "takeWhile (\<lambda>c. c = sep) (rev s)"
  have "rev s = ?t @ dropWhile (\<lambda>c. c = sep) (rev s)" by simp
  then have "s = rstrip_sep s @ rev ?t"
    unfolding rstrip_sep_def by (metis rev_append rev_rev_ident)
  moreover have "rev ?t = replicate (length ?t) sep"
  proof -
    have "\<forall>c\<in>set (rev ?t). c = sep" by (auto dest: set_takeWhileD)
    then show ?thesis by (metis length_rev replicate_length_same)
  qed
  ultimately show ?thesis by metis
qed

lemma resolve_rstrip_sep: "resolve (rstrip_sep s) = resolve s"
proof -
  obtain n where "s = rstrip_sep s @ replicate n sep" using rstrip_sep_decomp by blast
  then have "resolve s = resolve (rstrip_sep s @ replicate n sep)" by simp
  then show ?thesis by (simp add: resolve_replicate_sep)
qed

lemma resolve_dirname_join:
  assumes "valid_name f" "d \<noteq> []"
  shows "resolve (dirname (join d f)) = resolve d"
proof -
  from assms(1) have f: "f \<noteq> []" "sep \<notin> set f" "hd f \<noteq> sep"
    by (auto simp: valid_name_def) (cases f; auto)
  obtain x where j: "join d f = x @ sep # f" and x: "resolve (x @ [sep]) = resolve d"
  proof (cases "last d = sep")
    case True
    then have "d = butlast d @ [sep]" using assms(2) by (metis append_butlast_last_id)
    then have "join d f = butlast d @ sep # f" "resolve (butlast d @ [sep]) = resolve d"
      using True f assms(2) by (simp_all add: join_def)
    then show ?thesis by (rule that)
  next
    case False
    then have "join d f = d @ sep # f" using f assms(2) by (simp add: join_def)
    then show ?thesis using resolve_snoc_sep[of d] by (rule that)
  qed
  have "nat (rfind (x @ sep # f) sep + 1) = Suc (length x)"
    by (simp add: rfind_last[OF f(2)])
  then have h: "take (nat (rfind (join d f) sep + 1)) (join d f) = x @ [sep]"
    unfolding j by simp
  have r: "resolve (if c then rstrip_sep y else y) = resolve y" for c y
    by (simp add: resolve_rstrip_sep)
  show ?thesis
    unfolding dirname_def Let_def h r by (rule x)
qed

lemma ensure_dirs_new:
  "ensure_dirs fs pre xs = Inr fs1 \<Longrightarrow> lookup fs1 q = Some v
     \<Longrightarrow> lookup fs q = Some v \<or> (v = Dir \<and> prefix q (pre @ xs) \<and> strict_prefix pre q)"
proof (induction fs pre xs rule: ensure_dirs.induct)
  case (1 fs pre)
  then show ?case by simp
next
  case (2 fs pre x xs)
  show ?case
  proof (cases "lookup fs (pre @ [x])")
    case None
    with "2.prems" have e: "ensure_dirs (fs @ [(pre @ [x], Dir)]) (pre @ [x]) xs = Inr fs1" by simp
    from "2.IH"(1)[OF None e "2.prems"(2)]
    have "lookup (fs @ [(pre @ [x], Dir)]) q = Some v
          \<or> (v = Dir \<and> prefix q ((pre @ [x]) @ xs) \<and> strict_prefix (pre @ [x]) q)" .
    then show ?thesis
    proof
      assume a: "lookup (fs @ [(pre @ [x], Dir)]) q = Some v"
      show ?thesis
      proof (cases "lookup fs q")
        case None
        with a have "q = pre @ [x] \<and> v = Dir"
          by (auto simp: lookup_def map_add_def split: if_splits option.splits)
        then show ?thesis by (auto simp: strict_prefix_def)
      next
        case (Some w)
        from lookup_append_Some[OF Some, of "[(pre @ [x], Dir)]"] a Some show ?thesis by simp
      qed
    next
      assume "v = Dir \<and> prefix q ((pre @ [x]) @ xs) \<and> strict_prefix (pre @ [x]) q"
      then show ?thesis by (auto simp: strict_prefix_def prefix_def)
    qed
  next
    case (Some n)
    show ?thesis
    proof (cases n)
      case (File c)
      with Some "2.prems" show ?thesis by simp
    next
      case Dir
      with Some "2.prems" have e: "ensure_dirs fs (pre @ [x]) xs = Inr fs1" by simp
      from "2.IH"(2)[OF Some Dir e "2.prems"(2)] show ?thesis
        by (auto simp: strict_prefix_def prefix_def)
    qed
  qed
qed

lemma os_makedirs_new:
  assumes "os_makedirs fs name ok = Inr fs1" "lookup fs1 q = Some v"
  shows "lookup fs q = Some v \<or> (v = Dir \<and> prefix q (resolve name))"
proof (cases "ensure_dirs fs [] (butlast (resolve name))")
  case (Inl e)
  with assms(1) show ?thesis by (simp add: os_makedirs_def split: if_splits)
next
  case (Inr fs0)
  have p: "prefix (butlast (resolve name)) (resolve name)" by (rule prefixeq_butlast)
  have old: "lookup fs q = Some v \<or> (v = Dir \<and> prefix q (resolve name))" if "lookup fs0 q = Some v"
    using ensure_dirs_new[OF Inr that] p by (auto intro: prefix_order.trans)
  show ?thesis
  proof (cases "lookup fs0 (resolve name)")
    case None
    with assms(1) Inr have fs1: "fs1 = fs0 @ [(resolve name, Dir)]"
      by (simp add: os_makedirs_def split: if_splits)
    show ?thesis
    proof (cases "lookup fs0 q")
      case None
      with assms(2) have "q = resolve name \<and> v = Dir" unfolding fs1
        by (auto simp: lookup_def map_add_def split: if_splits option.splits)
      then show ?thesis by simp
    next
      case (Some w)
      from lookup_append_Some[OF Some, of "[(resolve name, Dir)]"] assms(2) Some old
      show ?thesis unfolding fs1 by simp
    qed
  next
    case (Some n)
    with assms(1) Inr have "fs1 = fs0"
      by (cases n) (simp_all add: os_makedirs_def split: if_splits)
    with assms(2) old show ?thesis by simp
  qed
qed

lemma shutil_move_file_ok:
  assumes "tree_ok fs" "src \<noteq> []" "lookup fs (resolve src) = Some (File c)" "dst \<noteq> []"
    "lookup fs (resolve dst) = None" "lookup fs (butlast (resolve dst)) = Some Dir"
  shows "shutil_move fs src dst = Inr (move_entries (resolve src) (resolve dst) fs)"
proof -
  let ?a = "resolve src" and ?b = "resolve dst"
  have "?a \<noteq> ?b" using assms(3,5) by auto
  moreover have "?a \<noteq> []" "?b \<noteq> []" using assms(3,5) by (auto simp: lookup_def split: if_splits)
  ultimately have ne: "?a \<noteq> ?b" "?a \<noteq> []" "?b \<noteq> []" by simp_all
  have np: "\<not> prefix ?a ?b"
  proof
    assume "prefix ?a ?b"
    with ne have "prefix ?a (butlast ?b)"
      by (metis prefix_snoc append_butlast_last_id)
    show False
    proof (cases "?a = butlast ?b")
      case True
      with assms(3,6) show False by simp
    next
      case False
      with \<open>prefix ?a (butlast ?b)\<close> have sp: "strict_prefix ?a (butlast ?b)"
        by (simp add: strict_prefix_def)
      then have "butlast ?b \<noteq> []" by auto
      from this assms(6) have "(butlast ?b, Dir) \<in> set fs" by (rule lookup_in_set)
      from below_is_dir[OF assms(1) this sp] assms(3) show False by simp
    qed
  qed
  have "\<not> os_path_isdir fs dst" using assms(5) by (simp add: os_path_isdir_def)
  then have "shutil_move fs src dst = os_rename fs src dst" by (simp add: shutil_move_def)
  also have "\<dots> = Inr (move_entries ?a ?b fs)"
    using assms(2-6) ne np by (simp add: os_rename_def)
  finally show ?thesis .
qed

section \<open>Replaying the records\<close>

lemma join_not_Nil: "d \<noteq> [] \<Longrightarrow> join d f \<noteq> []"
  by (auto simp: join_def)

lemma restore_op_restores:
  assumes "tree_ok fs" "valid_name f" "d \<noteq> []" "mv_source r = join d f"
    "mv_destination r \<noteq> []" "lookup fs (resolve (mv_destination r)) = Some (File c)"
    "\<not> os_path_exists fs (mv_source r)"
    "os_makedirs fs (dirname (mv_source r)) True = Inr fsm"
  shows "\<exists>fs1. restore_op fs r = (Inr (), fs1)
           \<and> os_path_isdir fs1 d
           \<and> lookup fs1 (resolve (mv_source r)) = Some (File c)
           \<and> lookup fs1 (resolve (mv_destination r)) = None
           \<and> (\<forall>q c'. q \<noteq> resolve (mv_destination r) \<and> lookup fs q = Some (File c')
                  \<longrightarrow> lookup fs1 q = Some (File c'))"
proof -
  let ?src = "mv_source r" and ?dst = "mv_destination r"
  let ?a = "resolve ?dst" and ?b = "resolve ?src"
  have src: "?src \<noteq> []" using assms(3,4) by (simp add: join_not_Nil)
  have b: "?b = resolve d @ [f]" using assms(2,4) by (simp add: resolve_join)
  have dn: "resolve (dirname ?src) = resolve d" using assms(2,3,4) by (simp add: resolve_dirname_join)
  have ex: "os_path_exists fs ?dst" using assms(5,6) by (simp add: os_path_exists_def)
  have tm: "tree_ok fsm" using assms(1,8) by (rule os_makedirs_tree_ok)
  have am: "lookup fsm ?a = Some (File c)" using assms(8,6) by (rule os_makedirs_lookup)
  have bfs: "lookup fs ?b = None" using assms(7) src by (simp add: os_path_exists_def)
  have bm: "lookup fsm ?b = None"
  proof (cases "lookup fsm ?b")
    case (Some v)
    from os_makedirs_new[OF assms(8) Some] bfs show ?thesis by (simp add: dn b)
  qed simp
  have dm: "lookup fsm (resolve d) = Some Dir"
    using os_makedirs_isdir[OF assms(8)] by (simp add: os_path_isdir_def dn)
  then have pm: "lookup fsm (butlast ?b) = Some Dir" by (simp add: b)
  have mv: "shutil_move fsm ?dst ?src = Inr (move_entries ?a ?b fsm)"
    using tm assms(5) am src bm pm by (rule shutil_move_file_ok)
  let ?fs1 = "move_entries ?a ?b fsm"
  note look = move_file_lookup[OF tm am bm]
  have 0: "restore_op fs r = (Inr (), ?fs1)"
    using ex assms(8) mv by (simp add: restore_op_def)
  have da: "resolve d \<noteq> ?a" "resolve d \<noteq> ?b" using am dm b by auto
  have 1: "os_path_isdir ?fs1 d"
    using look[of "resolve d"] da dm assms(3) by (simp add: os_path_isdir_def)
  have 2: "lookup ?fs1 ?b = Some (File c)" using look[of ?b] by simp
  have ab: "?a \<noteq> ?b" using am bm by auto
  have 3: "lookup ?fs1 ?a = None" using look[of ?a] ab by simp
  have 4: "lookup ?fs1 q = Some (File c')" if "q \<noteq> ?a" "lookup fs q = Some (File c')" for q c'
  proof -
    have qm: "lookup fsm q = Some (File c')" using assms(8) that(2) by (rule os_makedirs_lookup)
    with bm have "q \<noteq> ?b" by auto
    with look[of q] that(1) qm show ?thesis by simp
  qed
  from 0 1 2 3 4 show ?thesis by blast
qed

lemma restore_loop_snoc:
  "restore_loop fs (rev (operations @ [r])) =
     (case restore_op fs r of
        (Inl e, fs1) \<Rightarrow> (Inl e, fs1)
      | (Inr u, fs1) \<Rightarrow> restore_loop fs1 (rev operations))"
  by simp

lemma undo_runs_restore_loop:
  assumes "history (load_history s) = b # rest"
  shows "fst (undo_last_operation now s)
           = (fst (restore_loop (disk s) (rev (op_operations b))) = Inr ())"
  using assms unfolding undo_last_operation_def Let_def
  by (auto split: prod.splits sum.splits)

text \<open>
  What the replay does when nothing lies at the recorded source path. Undo runs the restore
  loop over the stored records in reverse: the record added last is replayed first, and the
  call succeeds exactly when the loop raises nothing. A record whose destination does not
  exist changes nothing and the loop goes on with the records after it. For a record whose
  destination is a file and whose source path (a name in a directory) is free, the parent
  directory of the source is made if it is missing and the file moves back: afterwards the
  parent is a directory, the file is at the source path with its content, nothing is at the
  destination, and every other file is where it was; when the parent cannot be made the
  step raises and the tree is unchanged. The condition that the source path is free cannot
  be dropped, as the next section shows.
\<close>

theorem undo_replay:
  "restore_loop fs (rev (operations @ [r])) =
     (case restore_op fs r of
        (Inl e, fs1) \<Rightarrow> (Inl e, fs1)
      | (Inr u, fs1) \<Rightarrow> restore_loop fs1 (rev operations))
   \<and> (history (load_history s) = b # rest \<longrightarrow>
        fst (undo_last_operation now s)
          = (fst (restore_loop (disk s) (rev (op_operations b))) = Inr ()))
   \<and> (path_ok fs (mv_destination r) \<and> \<not> os_path_exists fs (mv_destination r) \<longrightarrow>
        restore_op fs r = (Inr (), fs) \<and> restore_loop fs (r # rs) = restore_loop fs rs)
   \<and> (tree_ok fs \<and> valid_name f \<and> d \<noteq> [] \<and> path_ok fs d \<and> mv_source r = join d f
        \<and> mv_destination r \<noteq> [] \<and> path_ok fs (mv_destination r)
        \<and> lookup fs (resolve (mv_destination r)) = Some (File c)
        \<and> \<not> os_path_exists fs (mv_source r) \<longrightarrow>
        (case os_makedirs fs (dirname (mv_source r)) True of
           Inl e \<Rightarrow> restore_op fs r = (Inl e, fs)
         | Inr fsm \<Rightarrow>
             (\<exists>fs1. restore_op fs r = (Inr (), fs1)
                \<and> os_path_isdir fs1 d
                \<and> lookup fs1 (resolve (mv_source r)) = Some (File c)
                \<and> lookup fs1 (resolve (mv_destination r)) = None
                \<and> (\<forall>q c'. q \<noteq> resolve (mv_destination r) \<and> lookup fs q = Some (File c')
                       \<longrightarrow> lookup fs1 q = Some (File c')))))"
proof -
  have 1: "restore_loop fs (rev (operations @ [r])) =
     (case restore_op fs r of
        (Inl e, fs1) \<Rightarrow> (Inl e, fs1)
      | (Inr u, fs1) \<Rightarrow> restore_loop fs1 (rev operations))"
    by (rule restore_loop_snoc)
  have 2: "history (load_history s) = b # rest \<longrightarrow>
        fst (undo_last_operation now s)
          = (fst (restore_loop (disk s) (rev (op_operations b))) = Inr ())"
    using undo_runs_restore_loop by blast
  have 3: "path_ok fs (mv_destination r) \<and> \<not> os_path_exists fs (mv_destination r) \<longrightarrow>
        restore_op fs r = (Inr (), fs) \<and> restore_loop fs (r # rs) = restore_loop fs rs"
    by (simp add: restore_op_def)
  have 4: "tree_ok fs \<and> valid_name f \<and> d \<noteq> [] \<and> path_ok fs d \<and> mv_source r = join d f
        \<and> mv_destination r \<noteq> [] \<and> path_ok fs (mv_destination r)
        \<and> lookup fs (resolve (mv_destination r)) = Some (File c)
        \<and> \<not> os_path_exists fs (mv_source r) \<longrightarrow>
        (case os_makedirs fs (dirname (mv_source r)) True of
           Inl e \<Rightarrow> restore_op fs r = (Inl e, fs)
         | Inr fsm \<Rightarrow>
             (\<exists>fs1. restore_op fs r = (Inr (), fs1)
                \<and> os_path_isdir fs1 d
                \<and> lookup fs1 (resolve (mv_source r)) = Some (File c)
                \<and> lookup fs1 (resolve (mv_destination r)) = None
                \<and> (\<forall>q c'. q \<noteq> resolve (mv_destination r) \<and> lookup fs q = Some (File c')
                       \<longrightarrow> lookup fs1 q = Some (File c'))))"
  proof
    assume a: "tree_ok fs \<and> valid_name f \<and> d \<noteq> [] \<and> path_ok fs d \<and> mv_source r = join d f
        \<and> mv_destination r \<noteq> [] \<and> path_ok fs (mv_destination r)
        \<and> lookup fs (resolve (mv_destination r)) = Some (File c)
        \<and> \<not> os_path_exists fs (mv_source r)"
    show "case os_makedirs fs (dirname (mv_source r)) True of
           Inl e \<Rightarrow> restore_op fs r = (Inl e, fs)
         | Inr fsm \<Rightarrow>
             (\<exists>fs1. restore_op fs r = (Inr (), fs1)
                \<and> os_path_isdir fs1 d
                \<and> lookup fs1 (resolve (mv_source r)) = Some (File c)
                \<and> lookup fs1 (resolve (mv_destination r)) = None
                \<and> (\<forall>q c'. q \<noteq> resolve (mv_destination r) \<and> lookup fs q = Some (File c')
                       \<longrightarrow> lookup fs1 q = Some (File c')))"
    proof (cases "os_makedirs fs (dirname (mv_source r)) True")
      case (Inl e)
      moreover have "os_path_exists fs (mv_destination r)" using a by (simp add: os_path_exists_def)
      ultimately show ?thesis by (simp add: restore_op_def)
    next
      case (Inr fsm)
      from a have "tree_ok fs" "valid_name f" "d \<noteq> []" "mv_source r = join d f"
        "mv_destination r \<noteq> []" "lookup fs (resolve (mv_destination r)) = Some (File c)"
        "\<not> os_path_exists fs (mv_source r)" by blast+
      from restore_op_restores[OF this Inr] Inr show ?thesis by simp
    qed
  qed
  from 1 2 3 4 show ?thesis by (intro conjI) assumption+
qed

theorem undo_replay_witness:
  "\<not> os_path_exists (disk lost_source_state) ''D/documents/gone.txt''
   \<and> restore_op (disk lost_source_state)
        \<lparr>mv_operation = ''move'', mv_source = ''S/gone.txt'',
          mv_destination = ''D/documents/gone.txt''\<rparr> = (Inr (), disk lost_source_state)
   \<and> \<not> os_path_exists (disk lost_source_state) ''S''
   \<and> os_path_isdir (snd (restore_op (disk lost_source_state)
        \<lparr>mv_operation = ''move'', mv_source = ''S/a.jpg'',
          mv_destination = ''D/images/a.jpg''\<rparr>)) ''S''
   \<and> undo_last_operation ''t2'' lost_source_state =
       (True,
        \<lparr>disk = [([''D''], Dir), ([''S'', ''a.jpg''], File ''A''), ([''S''], Dir)],
         history_file = Stored [],
         timeline_file = [OrganizeEntry ''t1'' ''organize_by_type'' 2 ''D'', UndoEntry ''t2'' ''D''],
         history = [], last_operation = None\<rparr>)"
proof -
  let ?fs = "disk lost_source_state"
  let ?gone = "\<lparr>mv_operation = ''move'', mv_source = ''S/gone.txt'',
          mv_destination = ''D/documents/gone.txt''\<rparr>"
  let ?a = "\<lparr>mv_operation = ''move'', mv_source = ''S/a.jpg'',
          mv_destination = ''D/images/a.jpg''\<rparr>"
  have a: "\<not> os_path_exists ?fs ''D/documents/gone.txt''" by code_simp
  have b: "\<not> os_path_exists ?fs ''S''" by code_simp
  have c: "undo_last_operation ''t2'' lost_source_state =
       (True,
        \<lparr>disk = [([''D''], Dir), ([''S'', ''a.jpg''], File ''A''), ([''S''], Dir)],
         history_file = Stored [],
         timeline_file = [OrganizeEntry ''t1'' ''organize_by_type'' 2 ''D'', UndoEntry ''t2'' ''D''],
         history = [], last_operation = None\<rparr>)" by code_simp
  have h: "tree_ok ?fs" "valid_name ''a.jpg''" "''S'' \<noteq> []" "mv_source ?a = join ''S'' ''a.jpg''"
    "mv_destination ?a \<noteq> []" "lookup ?fs (resolve (mv_destination ?a)) = Some (File ''A'')"
    "\<not> os_path_exists ?fs (mv_source ?a)"
    by code_simp+
  obtain fsm where m: "os_makedirs ?fs (dirname (mv_source ?a)) True = Inr fsm"
  proof -
    have "os_makedirs ?fs (dirname (mv_source ?a)) True = Inr (?fs @ [([''S''], Dir)])"
      by code_simp
    then show ?thesis by (rule that)
  qed
  have pk: "path_ok ?fs (mv_destination ?gone)" "path_ok ?fs ''S''"
    "path_ok ?fs (mv_destination ?a)"
    by code_simp+
  note t3 = undo_replay[of ?fs "[]" ?gone lost_source_state "hd (history (load_history lost_source_state))" "[]" "''t2''" "[]"
      "''a.jpg''" "''S''" "''A''", THEN conjunct2, THEN conjunct2, THEN conjunct1]
  from t3 a pk(1) have 1: "restore_op ?fs ?gone = (Inr (), ?fs)" by simp
  note t4 = undo_replay[of ?fs "[]" ?a lost_source_state "hd (history (load_history lost_source_state))" "[]" "''t2''" "[]"
      "''a.jpg''" "''S''" "''A''", THEN conjunct2, THEN conjunct2, THEN conjunct2]
  from t4 h m pk(2,3) have 2: "os_path_isdir (snd (restore_op ?fs ?a)) ''S''" by auto
  from a 1 b 2 c show ?thesis by (intro conjI) assumption+
qed

section \<open>A record whose source path has become a directory\<close>

text \<open>
  Claim C7 says that undo, for each record whose destination exists, moves the file back to
  the recorded source path. The program misses the case in which a directory lies at that
  path. The directory \<open>T\<close> holds a file named \<open>images\<close>, with no extension, and \<open>x.jpg\<close>,
  and is organized in place: the history holds the record that moved \<open>T/images\<close> to
  \<open>T/others/images\<close> and, after it, the record that moved \<open>T/x.jpg\<close> to
  \<open>T/images/x.jpg\<close>, into the category folder made at the path the first file had. The
  replay, in reverse, moves \<open>x.jpg\<close> back. For the first record the destination
  \<open>T/others/images\<close> exists and the parent \<open>T\<close> of the source is there; \<open>shutil.move\<close>
  finds the directory \<open>T/images\<close> at the recorded source path and moves the file into it.
  The step raises nothing, the file is at \<open>T/images/images\<close>, and the recorded source
  path is still the directory; undo returns \<open>True\<close>.
\<close>

theorem restore_moves_into_directory:
  "path_ok (disk category_name_start) ''T''
   \<and> history_file (snd (organize_by_type ''t1'' category_name_start ''T'' None)) =
       Stored [\<lparr>op_timestamp = ''t1'', op_type = ''organize_by_type'', op_source_dir = ''T'',
                op_target_dir = ''T'',
                op_operations =
                  [\<lparr>mv_operation = ''move'', mv_source = ''T/images'',
                     mv_destination = ''T/others/images''\<rparr>,
                   \<lparr>mv_operation = ''move'', mv_source = ''T/x.jpg'',
                     mv_destination = ''T/images/x.jpg''\<rparr>]\<rparr>]
   \<and> disk (snd (organize_by_type ''t1'' category_name_start ''T'' None)) =
        [([''T''], Dir), ([''T'', ''others'', ''images''], File ''notes''),
         ([''T'', ''images'', ''x.jpg''], File ''X''),
         ([''T'', ''others''], Dir), ([''T'', ''images''], Dir)]
   \<and> restore_op
        [([''T''], Dir), ([''T'', ''others'', ''images''], File ''notes''),
         ([''T'', ''images'', ''x.jpg''], File ''X''),
         ([''T'', ''others''], Dir), ([''T'', ''images''], Dir)]
        \<lparr>mv_operation = ''move'', mv_source = ''T/x.jpg'', mv_destination = ''T/images/x.jpg''\<rparr>
      = (Inr (),
         [([''T''], Dir), ([''T'', ''others'', ''images''], File ''notes''),
          ([''T'', ''x.jpg''], File ''X''),
          ([''T'', ''others''], Dir), ([''T'', ''images''], Dir)])
   \<and> os_path_exists
        [([''T''], Dir), ([''T'', ''others'', ''images''], File ''notes''),
         ([''T'', ''x.jpg''], File ''X''),
         ([''T'', ''others''], Dir), ([''T'', ''images''], Dir)] ''T/others/images''
   \<and> restore_op
        [([''T''], Dir), ([''T'', ''others'', ''images''], File ''notes''),
         ([''T'', ''x.jpg''], File ''X''),
         ([''T'', ''others''], Dir), ([''T'', ''images''], Dir)]
        \<lparr>mv_operation = ''move'', mv_source = ''T/images'', mv_destination = ''T/others/images''\<rparr>
      = (Inr (),
         [([''T''], Dir), ([''T'', ''images'', ''images''], File ''notes''),
          ([''T'', ''x.jpg''], File ''X''),
          ([''T'', ''others''], Dir), ([''T'', ''images''], Dir)])
   \<and> lookup
        [([''T''], Dir), ([''T'', ''images'', ''images''], File ''notes''),
         ([''T'', ''x.jpg''], File ''X''),
         ([''T'', ''others''], Dir), ([''T'', ''images''], Dir)] (resolve ''T/images'')
      = Some Dir
   \<and> lookup
        [([''T''], Dir), ([''T'', ''images'', ''images''], File ''notes''),
         ([''T'', ''x.jpg''], File ''X''),
         ([''T'', ''others''], Dir), ([''T'', ''images''], Dir)] (resolve ''T/images/images'')
      = Some (File ''notes'')
   \<and> undo_last_operation ''t2'' (snd (organize_by_type ''t1'' category_name_start ''T'' None)) =
       (True,
        \<lparr>disk = [([''T''], Dir), ([''T'', ''images'', ''images''], File ''notes''),
                 ([''T'', ''x.jpg''], File ''X''), ([''T'', ''images''], Dir)],
         history_file = Stored [],
         timeline_file = [OrganizeEntry ''t1'' ''organize_by_type'' 2 ''T'', UndoEntry ''t2'' ''T''],
         history = [], last_operation = None\<rparr>)"
  by code_simp

section \<open>The clean-up walk\<close>

text \<open>
  The walk over a stack is the walk of each of its parts in turn. So visiting a directory
  is: list it, visit each directory found in it, then run the body of the loop on the
  listed directories.
\<close>

lemma walk_cleanup_append:
  "walk_cleanup (a @ b) fs = walk_cleanup b (walk_cleanup a fs)"
proof (induction a fs rule: walk_cleanup.induct)
  case (1 fs)
  then show ?case by (simp add: walk_cleanup.simps)
next
  case (2 root dirs files st fs)
  then show ?case by (simp add: walk_cleanup.simps)
next
  case (3 topdir st fs)
  show ?case
  proof (cases "scandir fs topdir")
    case (Inl e)
    with 3(1) show ?thesis by (simp add: walk_cleanup.simps)
  next
    case (Inr p)
    obtain dirs nondirs where p: "p = (dirs, nondirs)" by (cases p)
    from 3(2)[OF Inr p[symmetric]] Inr p show ?thesis by (simp add: walk_cleanup.simps)
  qed
qed

lemma walk_cleanup_visits:
  "walk_cleanup (map Visit ps) fs = fold (\<lambda>p fs1. walk_cleanup [Visit p] fs1) ps fs"
proof (induction ps arbitrary: fs)
  case Nil
  then show ?case by (simp add: walk_cleanup.simps)
next
  case (Cons p ps)
  have "walk_cleanup (map Visit (p # ps)) fs = walk_cleanup ([Visit p] @ map Visit ps) fs" by simp
  also have "\<dots> = walk_cleanup (map Visit ps) (walk_cleanup [Visit p] fs)"
    by (rule walk_cleanup_append)
  finally show ?case using Cons by simp
qed

lemma walk_cleanup_visit:
  "walk_cleanup [Visit topdir] fs =
     (case scandir fs topdir of
        Inl e \<Rightarrow> fs
      | Inr (dirs, nondirs) \<Rightarrow>
          cleanup_dirs
            (fold (\<lambda>d fs1. walk_cleanup [Visit (join topdir d)] fs1) dirs fs) topdir dirs)"
proof (cases "scandir fs topdir")
  case (Inl e)
  then show ?thesis by (simp add: walk_cleanup.simps)
next
  case (Inr p)
  obtain dirs nondirs where p: "p = (dirs, nondirs)" by (cases p)
  have v: "walk_cleanup (map (\<lambda>d. Visit (join topdir d)) dirs) fs
           = fold (\<lambda>d fs1. walk_cleanup [Visit (join topdir d)] fs1) dirs fs"
    using walk_cleanup_visits[of "map (join topdir) dirs" fs]
    by (simp add: fold_map comp_def)
  have "walk_cleanup [Visit topdir] fs =
          walk_cleanup (map (\<lambda>d. Visit (join topdir d)) dirs @ [Yield topdir dirs nondirs]) fs"
    using Inr p by (simp add: walk_cleanup.simps)
  also have "\<dots> = walk_cleanup [Yield topdir dirs nondirs]
                     (walk_cleanup (map (\<lambda>d. Visit (join topdir d)) dirs) fs)"
    by (rule walk_cleanup_append)
  also have "\<dots> = cleanup_dirs (walk_cleanup (map (\<lambda>d. Visit (join topdir d)) dirs) fs) topdir dirs"
    by (simp add: walk_cleanup.simps)
  finally show ?thesis using Inr p by (simp add: v)
qed

section \<open>What the clean-up leaves\<close>

text \<open>
  \<open>names_ok\<close> says that every component of every path of the table is a valid name.
  \<open>has_file fs k\<close> says that a file lies at or below \<open>k\<close>. \<open>sweep fs0 roots fs\<close> keeps
  the entries of \<open>fs\<close> that are not strictly below one of the roots, and those that have a
  file of \<open>fs0\<close> at or below them.
\<close>

definition names_ok :: "filesystem \<Rightarrow> bool" where
  "names_ok fs = list_all (\<lambda>(k, n). list_all valid_name k) fs"

definition has_file :: "filesystem \<Rightarrow> path \<Rightarrow> bool" where
  "has_file fs k = list_ex (\<lambda>(k1, n). prefix k k1 \<and> n \<noteq> Dir) fs"

definition sweep :: "filesystem \<Rightarrow> path list \<Rightarrow> filesystem \<Rightarrow> filesystem" where
  "sweep fs0 roots fs =
     filter (\<lambda>(k, n). list_all (\<lambda>r. \<not> strict_prefix r k) roots \<or> has_file fs0 k) fs"

lemma map_of_filter_key:
  "map_of (filter (\<lambda>(k, n). P k) fs) q = (if P q then map_of fs q else None)"
  by (induction fs) auto

lemma lookup_filter_key:
  "lookup (filter (\<lambda>(k, n). P k) fs) q =
     (if q = [] then Some Dir else if P q then lookup fs q else None)"
  by (simp add: lookup_def map_of_filter_key)

lemma has_file_iff: "has_file fs k \<longleftrightarrow> (\<exists>k1 c. prefix k k1 \<and> (k1, File c) \<in> set fs)"
proof
  assume "has_file fs k"
  then obtain k1 n where "(k1, n) \<in> set fs" "prefix k k1" "n \<noteq> Dir"
    by (auto simp: has_file_def list_ex_iff)
  then show "\<exists>k1 c. prefix k k1 \<and> (k1, File c) \<in> set fs" by (cases n) auto
next
  assume "\<exists>k1 c. prefix k k1 \<and> (k1, File c) \<in> set fs"
  then show "has_file fs k" by (force simp: has_file_def list_ex_iff)
qed

lemma has_file_prefix: "has_file fs k \<Longrightarrow> prefix a k \<Longrightarrow> has_file fs a"
  by (auto simp: has_file_iff intro: prefix_order.trans)

lemma tree_ok_ancestor:
  assumes "tree_ok fs" "(k, n) \<in> set fs" "strict_prefix a k" "a \<noteq> []"
  shows "(a, Dir) \<in> set fs"
  using below_is_dir[OF assms(1-3)] assms(4) by (intro lookup_in_set)

lemma tree_ok_filter:
  assumes "tree_ok fs"
    and "\<And>k n. (k, n) \<in> set fs \<Longrightarrow> P k \<Longrightarrow> butlast k \<noteq> [] \<Longrightarrow> P (butlast k)"
  shows "tree_ok (filter (\<lambda>(k, n). P k) fs)"
proof -
  have d: "distinct (map fst (filter (\<lambda>(k, n). P k) fs))"
    using assms(1) by (simp add: tree_ok_def distinct_map_filter)
  have "k \<noteq> [] \<and> lookup (filter (\<lambda>(k, n). P k) fs) (butlast k) = Some Dir"
    if "(k, n) \<in> set fs" "P k" for k n
    using tree_ok_parent[OF assms(1) that(1)] assms(2)[OF that]
    by (auto simp: lookup_filter_key)
  with d show ?thesis by (auto simp: tree_ok_def list_all_iff)
qed

lemma names_ok_filter: "names_ok fs \<Longrightarrow> names_ok (filter P fs)"
  by (auto simp: names_ok_def list_all_iff)

lemma names_ok_valid: "names_ok fs \<Longrightarrow> (k, n) \<in> set fs \<Longrightarrow> x \<in> set k \<Longrightarrow> valid_name x"
  by (auto simp: names_ok_def list_all_iff)

lemma children_iff:
  assumes "names_ok fs"
  shows "d \<in> set (children fs q) \<longleftrightarrow> (\<exists>n. (q @ [d], n) \<in> set fs)"
proof
  assume "d \<in> set (children fs q)"
  then show "\<exists>n. (q @ [d], n) \<in> set fs" using children_member by blast
next
  assume "\<exists>n. (q @ [d], n) \<in> set fs"
  then obtain n where n: "(q @ [d], n) \<in> set fs" by blast
  with assms have "valid_name d" by (auto dest: names_ok_valid)
  with n show "d \<in> set (children fs q)"
    by (force simp: children_def)
qed

lemma scandir_dirs:
  assumes "tree_ok fs" "names_ok fs" "topdir \<noteq> []" "lookup fs (resolve topdir) = Some Dir"
  shows "\<exists>dirs nondirs. scandir fs topdir = Inr (dirs, nondirs)
           \<and> (\<forall>d. d \<in> set dirs \<longleftrightarrow> (resolve topdir @ [d], Dir) \<in> set fs)
           \<and> (\<forall>d\<in>set dirs. valid_name d)"
proof -
  let ?q = "resolve topdir"
  let ?dirs = "filter (\<lambda>n. os_path_isdir fs (join topdir n)) (children fs ?q)"
  let ?nondirs = "filter (\<lambda>n. \<not> os_path_isdir fs (join topdir n)) (children fs ?q)"
  have s: "scandir fs topdir = Inr (?dirs, ?nondirs)"
    using assms(3,4) by (simp add: scandir_def os_listdir_def)
  have v: "valid_name d" if "d \<in> set ?dirs" for d
    using that children_member by auto
  have "d \<in> set ?dirs \<longleftrightarrow> (?q @ [d], Dir) \<in> set fs" for d
  proof
    assume a: "d \<in> set ?dirs"
    then have "lookup fs (resolve (join topdir d)) = Some Dir" by (simp add: os_path_isdir_def)
    then have "lookup fs (?q @ [d]) = Some Dir" using v[OF a] by (simp add: resolve_join)
    then show "(?q @ [d], Dir) \<in> set fs" by (intro lookup_in_set) auto
  next
    assume a: "(?q @ [d], Dir) \<in> set fs"
    then have c: "d \<in> set (children fs ?q)" using assms(2) by (auto simp: children_iff)
    then have vd: "valid_name d" using children_member by blast
    have "lookup fs (?q @ [d]) = Some Dir" using assms(1) a by (rule tree_ok_lookup)
    moreover have "join topdir d \<noteq> []" using assms(3) by (rule join_not_Nil)
    ultimately have "os_path_isdir fs (join topdir d)"
      using vd by (simp add: os_path_isdir_def resolve_join)
    with c show "d \<in> set ?dirs" by simp
  qed
  with s v show ?thesis by blast
qed

lemma remove_if_empty_eq:
  assumes "p \<noteq> []"
  shows "remove_if_empty s p =
     (if lookup s (resolve p) = Some Dir \<and> resolve p \<noteq> [] \<and> children s (resolve p) = []
      then filter (\<lambda>(k, n). k \<noteq> resolve p) s else s)"
proof (cases "lookup s (resolve p)")
  case None
  then show ?thesis using assms by (simp add: remove_if_empty_def os_listdir_def)
next
  case (Some n)
  then show ?thesis using assms
    by (cases n) (auto simp: remove_if_empty_def os_listdir_def os_rmdir_def)
qed

lemma filter_filter_key:
  "filter (\<lambda>(k, n). A k) (filter (\<lambda>(k, n). B k) fs) = filter (\<lambda>(k, n). A k \<and> B k) fs"
  by (induction fs) auto

lemma tree_ok_unique: "tree_ok fs \<Longrightarrow> (k, n) \<in> set fs \<Longrightarrow> (k, m) \<in> set fs \<Longrightarrow> n = m"
  by (auto simp: tree_ok_def dest: eq_key_imp_eq_value)

lemma child_has_file:
  assumes "tree_ok fs" "(p, Dir) \<in> set fs"
  shows "has_file fs p \<longleftrightarrow>
           (\<exists>k n. (k, n) \<in> set fs \<and> k \<noteq> [] \<and> butlast k = p \<and> has_file fs k)"
proof
  assume "has_file fs p"
  then obtain k1 c where k1: "prefix p k1" "(k1, File c) \<in> set fs" by (auto simp: has_file_iff)
  have "k1 \<noteq> p" using tree_ok_unique[OF assms(1) k1(2)] assms(2) by auto
  with k1(1) obtain x rest where x: "k1 = p @ x # rest"
    by (metis prefixE neq_Nil_conv append_Nil2)
  let ?k = "p @ [x]"
  have pk: "prefix ?k k1" by (simp add: x)
  have "\<exists>n. (?k, n) \<in> set fs"
  proof (cases "rest = []")
    case True
    with k1(2) x show ?thesis by auto
  next
    case False
    then have "strict_prefix ?k k1" by (simp add: x strict_prefix_def)
    from tree_ok_ancestor[OF assms(1) k1(2) this] show ?thesis by auto
  qed
  moreover have "has_file fs ?k" using pk k1(2) by (auto simp: has_file_iff)
  ultimately show "\<exists>k n. (k, n) \<in> set fs \<and> k \<noteq> [] \<and> butlast k = p \<and> has_file fs k"
    by (intro exI[of _ ?k]) auto
next
  assume "\<exists>k n. (k, n) \<in> set fs \<and> k \<noteq> [] \<and> butlast k = p \<and> has_file fs k"
  then obtain k where "has_file fs k" "butlast k = p" by blast
  then show "has_file fs p" by (auto intro: has_file_prefix prefixeq_butlast)
qed

lemma children_filter_empty:
  assumes "names_ok fs"
    and "\<And>k n. (k, n) \<in> set fs \<Longrightarrow> k \<noteq> [] \<Longrightarrow> butlast k = p \<Longrightarrow> K k = has_file fs k"
    and "tree_ok fs" "(p, Dir) \<in> set fs"
  shows "children (filter (\<lambda>(k, n). K k) fs) p = [] \<longleftrightarrow> \<not> has_file fs p"
proof -
  have "children (filter (\<lambda>(k, n). K k) fs) p = [] \<longleftrightarrow>
          \<not> (\<exists>k n. (k, n) \<in> set fs \<and> K k \<and> k \<noteq> [] \<and> butlast k = p \<and> valid_name (last k))"
    by (auto simp: children_def filter_empty_conv)
  also have "\<dots> \<longleftrightarrow> \<not> (\<exists>k n. (k, n) \<in> set fs \<and> k \<noteq> [] \<and> butlast k = p \<and> has_file fs k)"
    using assms(2) names_ok_valid[OF assms(1)] by (metis last_in_set)
  also have "\<dots> \<longleftrightarrow> \<not> has_file fs p" using child_has_file[OF assms(3,4)] by simp
  finally show ?thesis .
qed

text \<open>
  \<open>kept_key\<close> is the test on the key that a table passes while the walk is under way:
  the key has not been removed, and it is not strictly below a root already walked, or a
  file lies at or below it.
\<close>

definition kept_key :: "filesystem \<Rightarrow> path set \<Rightarrow> path set \<Rightarrow> path \<Rightarrow> bool" where
  "kept_key fs roots rm k = (k \<notin> rm \<and> ((\<forall>r\<in>roots. \<not> strict_prefix r k) \<or> has_file fs k))"

lemma sweep_kept_key: "sweep fs0 roots fs = filter (\<lambda>(k, n). kept_key fs0 (set roots) {} k) fs"
  by (simp add: sweep_def kept_key_def list_all_iff)

lemma has_file_file: "(k, File c) \<in> set fs \<Longrightarrow> has_file fs k"
  by (auto simp: has_file_iff)

lemma has_file_filter:
  assumes "\<And>k. has_file fs k \<Longrightarrow> K k"
  shows "has_file (filter (\<lambda>(k, n). K k) fs) k = has_file fs k"
  using assms by (auto simp: has_file_iff dest: has_file_file)

lemma siblings_not_below: "length r = length p \<Longrightarrow> \<not> strict_prefix r p"
  by (auto simp: strict_prefix_def prefix_def)

lemma cleanup_dirs_fold:
  assumes t: "tree_ok fs" and nm: "names_ok fs" and top: "topdir \<noteq> []"
    and D: "\<forall>d\<in>set dirs. valid_name d \<and> (resolve topdir @ [d], Dir) \<in> set fs"
    and ds: "set ds \<subseteq> set dirs"
    and rm: "rm \<subseteq> {r \<in> (\<lambda>d. resolve topdir @ [d]) ` set dirs. \<not> has_file fs r}"
  shows "fold (\<lambda>d s. remove_if_empty s (join topdir d)) ds
           (filter (\<lambda>(k, n). kept_key fs ((\<lambda>d. resolve topdir @ [d]) ` set dirs) rm k) fs)
         = filter (\<lambda>(k, n). kept_key fs ((\<lambda>d. resolve topdir @ [d]) ` set dirs)
                      (rm \<union> {r \<in> (\<lambda>d. resolve topdir @ [d]) ` set ds. \<not> has_file fs r}) k) fs"
  using ds rm
proof (induction ds arbitrary: rm)
  case Nil
  then show ?case by simp
next
  case (Cons d ds)
  let ?q = "resolve topdir"
  let ?R = "(\<lambda>d. ?q @ [d]) ` set dirs"
  let ?p = "?q @ [d]"
  let ?s = "filter (\<lambda>(k, n). kept_key fs ?R rm k) fs"
  from Cons.prems(1) have d: "d \<in> set dirs" and ds: "set ds \<subseteq> set dirs" by auto
  from D d have vd: "valid_name d" and pd: "(?p, Dir) \<in> set fs" by auto
  have j: "join topdir d \<noteq> []" using top by (rule join_not_Nil)
  have rp: "resolve (join topdir d) = ?p" using vd by (rule resolve_join)
  have pR: "?p \<in> ?R" using d by auto
  have Kp: "kept_key fs ?R rm ?p \<longleftrightarrow> ?p \<notin> rm"
    by (auto simp: kept_key_def siblings_not_below)
  have lp: "lookup fs ?p = Some Dir" using t pd by (rule tree_ok_lookup)
  have ls: "lookup ?s ?p = (if ?p \<in> rm then None else Some Dir)"
    using lp Kp by (simp add: lookup_filter_key)
  have ch: "children ?s ?p = [] \<longleftrightarrow> \<not> has_file fs ?p"
  proof (rule children_filter_empty[OF nm _ t pd])
    fix k n assume k: "(k, n) \<in> set fs" "k \<noteq> []" "butlast k = ?p"
    then have kk: "k = ?p @ [last k]" by (metis append_butlast_last_id)
    then have sp: "strict_prefix ?p k" by (metis strict_prefixI' append.assoc append_Cons append_Nil)
    have "length k = Suc (length ?p)" by (subst kk) simp
    moreover have "length r = length ?p" if "r \<in> rm" for r
      using Cons.prems(2) that by auto
    ultimately have "k \<notin> rm" by auto
    with sp pR show "kept_key fs ?R rm k = has_file fs k"
      by (auto simp: kept_key_def)
  qed
  let ?rm' = "if ?p \<notin> rm \<and> \<not> has_file fs ?p then insert ?p rm else rm"
  have step: "remove_if_empty ?s (join topdir d) = filter (\<lambda>(k, n). kept_key fs ?R ?rm' k) fs"
  proof (cases "?p \<notin> rm \<and> \<not> has_file fs ?p")
    case True
    then have "remove_if_empty ?s (join topdir d) = filter (\<lambda>(k, n). k \<noteq> ?p) ?s"
      using ls ch by (simp add: remove_if_empty_eq[OF j] rp)
    also have "\<dots> = filter (\<lambda>(k, n). k \<noteq> ?p \<and> kept_key fs ?R rm k) fs"
      by (rule filter_filter_key)
    also have "\<dots> = filter (\<lambda>(k, n). kept_key fs ?R (insert ?p rm) k) fs"
      by (rule filter_cong) (auto simp: kept_key_def)
    finally show ?thesis using True by simp
  next
    case False
    then have "remove_if_empty ?s (join topdir d) = ?s"
      using ls ch by (auto simp: remove_if_empty_eq[OF j] rp)
    with False show ?thesis by auto
  qed
  have rm': "?rm' \<subseteq> {r \<in> ?R. \<not> has_file fs r}"
  proof (cases "?p \<notin> rm \<and> \<not> has_file fs ?p")
    case True
    then show ?thesis using Cons.prems(2) pR by simp
  next
    case False
    then have "?rm' = rm" by auto
    then show ?thesis using Cons.prems(2) by (simp only:)
  qed
  have "fold (\<lambda>d s. remove_if_empty s (join topdir d)) (d # ds) ?s
        = fold (\<lambda>d s. remove_if_empty s (join topdir d)) ds
             (filter (\<lambda>(k, n). kept_key fs ?R ?rm' k) fs)"
    by (simp only: fold_simps step)
  also have "\<dots> = filter (\<lambda>(k, n). kept_key fs ?R
                      (?rm' \<union> {r \<in> (\<lambda>d. ?q @ [d]) ` set ds. \<not> has_file fs r}) k) fs"
    using Cons.IH[OF ds rm'] .
  also have "?rm' \<union> {r \<in> (\<lambda>d. ?q @ [d]) ` set ds. \<not> has_file fs r}
             = rm \<union> {r \<in> (\<lambda>d. ?q @ [d]) ` set (d # ds). \<not> has_file fs r}"
  proof (cases "?p \<notin> rm \<and> \<not> has_file fs ?p")
    case True
    then show ?thesis by auto
  next
    case False
    have "{r \<in> (\<lambda>d. ?q @ [d]) ` set (d # ds). \<not> has_file fs r}
          = (if has_file fs ?p then {} else {?p}) \<union> {r \<in> (\<lambda>d. ?q @ [d]) ` set ds. \<not> has_file fs r}"
      by auto
    with False show ?thesis by auto
  qed
  finally show ?case .
qed

lemma kept_key_parent:
  assumes "kept_key fs roots {} k"
  shows "kept_key fs roots {} (butlast k)"
proof -
  have "strict_prefix r k" if "strict_prefix r (butlast k)" for r
    using that prefixeq_butlast[of k] by (metis prefix_order.less_le_trans)
  moreover have "has_file fs (butlast k)" if "has_file fs k"
    using that by (rule has_file_prefix) (rule prefixeq_butlast)
  ultimately show ?thesis using assms by (auto simp: kept_key_def)
qed

lemma kept_key_cong_fs:
  "(\<And>k. has_file a k = has_file b k) \<Longrightarrow> kept_key a R rm k = kept_key b R rm k"
  by (simp add: kept_key_def)

lemma visit_children_fold:
  assumes t: "tree_ok fs" and nm: "names_ok fs" and top: "topdir \<noteq> []"
    and D: "\<forall>d\<in>set dirs. valid_name d \<and> (resolve topdir @ [d], Dir) \<in> set fs"
    and IH: "\<And>s d. d \<in> set dirs \<Longrightarrow> tree_ok s \<Longrightarrow> names_ok s
               \<Longrightarrow> lookup s (resolve topdir @ [d]) = Some Dir \<Longrightarrow> fs_depth s \<le> fs_depth fs
               \<Longrightarrow> walk_cleanup [Visit (join topdir d)] s = sweep s [resolve topdir @ [d]] s"
    and ds: "set ds \<subseteq> set dirs"
    and R0: "R0 \<subseteq> (\<lambda>d. resolve topdir @ [d]) ` set dirs"
  shows "fold (\<lambda>d s. walk_cleanup [Visit (join topdir d)] s) ds
           (filter (\<lambda>(k, n). kept_key fs R0 {} k) fs)
         = filter (\<lambda>(k, n). kept_key fs (R0 \<union> (\<lambda>d. resolve topdir @ [d]) ` set ds) {} k) fs"
  using ds R0
proof (induction ds arbitrary: R0)
  case Nil
  then show ?case by simp
next
  case (Cons d ds)
  let ?q = "resolve topdir"
  let ?p = "?q @ [d]"
  let ?s = "filter (\<lambda>(k, n). kept_key fs R0 {} k) fs"
  from Cons.prems(1) have d: "d \<in> set dirs" and ds: "set ds \<subseteq> set dirs" by auto
  from D d have pd: "(?p, Dir) \<in> set fs" by auto
  have ts: "tree_ok ?s" using t by (rule tree_ok_filter) (rule kept_key_parent)
  have ns: "names_ok ?s" using nm by (rule names_ok_filter)
  have Kp: "kept_key fs R0 {} ?p"
    using Cons.prems(2) by (auto simp: kept_key_def siblings_not_below)
  have lp: "lookup fs ?p = Some Dir" using t pd by (rule tree_ok_lookup)
  have ls: "lookup ?s ?p = Some Dir" using lp Kp by (simp add: lookup_filter_key)
  have dep: "fs_depth ?s \<le> fs_depth fs" by (rule fs_depth_mono) auto
  have hf: "has_file ?s k = has_file fs k" for k
    by (rule has_file_filter) (simp add: kept_key_def)
  have kk: "kept_key ?s {?p} {} k = kept_key fs {?p} {} k" for k
    by (rule kept_key_cong_fs) (rule hf)
  have "walk_cleanup [Visit (join topdir d)] ?s = sweep ?s [?p] ?s"
    using d ts ns ls dep by (rule IH)
  also have "\<dots> = filter (\<lambda>(k, n). kept_key ?s {?p} {} k) ?s"
    by (simp add: sweep_kept_key)
  also have "\<dots> = filter (\<lambda>(k, n). kept_key fs {?p} {} k) ?s"
    by (simp only: kk)
  also have "\<dots> = filter (\<lambda>(k, n). kept_key fs {?p} {} k \<and> kept_key fs R0 {} k) fs"
    by (rule filter_filter_key)
  also have "\<dots> = filter (\<lambda>(k, n). kept_key fs (insert ?p R0) {} k) fs"
    by (rule filter_cong) (auto simp: kept_key_def)
  finally have step: "walk_cleanup [Visit (join topdir d)] ?s
                      = filter (\<lambda>(k, n). kept_key fs (insert ?p R0) {} k) fs" .
  have R0': "insert ?p R0 \<subseteq> (\<lambda>d. ?q @ [d]) ` set dirs" using Cons.prems(2) d by auto
  have "fold (\<lambda>d s. walk_cleanup [Visit (join topdir d)] s) (d # ds) ?s
        = fold (\<lambda>d s. walk_cleanup [Visit (join topdir d)] s) ds
            (filter (\<lambda>(k, n). kept_key fs (insert ?p R0) {} k) fs)"
    by (simp only: fold_simps step)
  also have "\<dots> = filter (\<lambda>(k, n). kept_key fs (insert ?p R0 \<union> (\<lambda>d. ?q @ [d]) ` set ds) {} k) fs"
    using Cons.IH[OF ds R0'] .
  also have "insert ?p R0 \<union> (\<lambda>d. ?q @ [d]) ` set ds = R0 \<union> (\<lambda>d. ?q @ [d]) ` set (d # ds)"
    by auto
  finally show ?case .
qed

lemma walk_cleanup_sweep:
  "tree_ok fs \<Longrightarrow> names_ok fs \<Longrightarrow> topdir \<noteq> [] \<Longrightarrow> lookup fs (resolve topdir) = Some Dir
     \<Longrightarrow> walk_cleanup [Visit topdir] fs = sweep fs [resolve topdir] fs"
proof (induction "fs_depth fs - length (resolve topdir)" arbitrary: fs topdir rule: less_induct)
  case less
  let ?q = "resolve topdir"
  note t = less.prems(1) and nm = less.prems(2) and top = less.prems(3)
  from scandir_dirs[OF less.prems] obtain dirs nondirs where
    sc: "scandir fs topdir = Inr (dirs, nondirs)"
    and dirs: "\<forall>d. d \<in> set dirs \<longleftrightarrow> (?q @ [d], Dir) \<in> set fs"
    and valid: "\<forall>d\<in>set dirs. valid_name d"
    by blast
  let ?R = "(\<lambda>d. ?q @ [d]) ` set dirs"
  let ?RM = "{r \<in> ?R. \<not> has_file fs r}"
  have D: "\<forall>d\<in>set dirs. valid_name d \<and> (?q @ [d], Dir) \<in> set fs"
    using dirs valid by blast
  have IH: "walk_cleanup [Visit (join topdir d)] s = sweep s [?q @ [d]] s"
    if "d \<in> set dirs" "tree_ok s" "names_ok s" "lookup s (?q @ [d]) = Some Dir"
      "fs_depth s \<le> fs_depth fs" for s d
  proof -
    from that(1) D have vd: "valid_name d" and pd: "(?q @ [d], Dir) \<in> set fs" by auto
    have rp: "resolve (join topdir d) = ?q @ [d]" using vd by (rule resolve_join)
    have "length (?q @ [d]) \<le> fs_depth fs" using pd by (rule fs_depth_bound)
    then have m: "fs_depth s - length (resolve (join topdir d)) < fs_depth fs - length ?q"
      using that(5) by (simp add: rp)
    have l': "lookup s (resolve (join topdir d)) = Some Dir" using that(4) by (simp add: rp)
    have "walk_cleanup [Visit (join topdir d)] s = sweep s [resolve (join topdir d)] s"
      using m that(2,3) join_not_Nil[OF top, of d] l' by (rule less.hyps)
    then show ?thesis by (simp add: rp)
  qed
  have all: "filter (\<lambda>(k, n). kept_key fs {} {} k) fs = fs"
    by (simp add: kept_key_def)
  have "fold (\<lambda>d s. walk_cleanup [Visit (join topdir d)] s) dirs fs
        = filter (\<lambda>(k, n). kept_key fs ({} \<union> ?R) {} k) fs"
    using visit_children_fold[OF t nm top D IH, of dirs "{}"] by (simp only: all) simp
  then have kids: "fold (\<lambda>d s. walk_cleanup [Visit (join topdir d)] s) dirs fs
        = filter (\<lambda>(k, n). kept_key fs ?R {} k) fs" by simp
  have "walk_cleanup [Visit topdir] fs
        = cleanup_dirs (fold (\<lambda>d s. walk_cleanup [Visit (join topdir d)] s) dirs fs) topdir dirs"
    by (subst walk_cleanup_visit) (simp add: sc)
  also have "\<dots> = fold (\<lambda>d s. remove_if_empty s (join topdir d)) dirs
                     (filter (\<lambda>(k, n). kept_key fs ?R {} k) fs)"
    by (simp only: kids cleanup_dirs_def)
  also have "\<dots> = filter (\<lambda>(k, n). kept_key fs ?R ({} \<union> ?RM) k) fs"
    using cleanup_dirs_fold[OF t nm top D, of dirs "{}"] by simp
  also have "\<dots> = sweep fs [?q] fs"
    unfolding sweep_kept_key
  proof (rule filter_cong[OF refl])
    fix x assume x: "x \<in> set fs"
    obtain k n where kn: "x = (k, n)" by (cases x)
    have "kept_key fs ?R ({} \<union> ?RM) k = kept_key fs (set [?q]) {} k"
    proof (cases "has_file fs k")
      case True
      then show ?thesis by (auto simp: kept_key_def)
    next
      case nf: False
      show ?thesis
      proof (cases "strict_prefix ?q k")
        case False
        then have "\<not> strict_prefix (?q @ [d]) k" for d
          by (metis prefix_order.dual_order.strict_trans strict_prefixI' append_Nil2 append.assoc append_Cons)
        moreover have "k \<notin> ?R" using False by (auto simp: strict_prefix_def)
        ultimately show ?thesis using False by (auto simp: kept_key_def)
      next
        case True
        then obtain y rest where k: "k = ?q @ y # rest"
          by (metis strict_prefixE' )
        have nD: "n = Dir"
        proof (cases n)
          case (File c)
          with x kn nf show ?thesis by (auto dest: has_file_file)
        qed simp
        have yd: "(?q @ [y], Dir) \<in> set fs"
        proof (cases "rest = []")
          case True
          with x kn nD k show ?thesis by simp
        next
          case False
          then have "strict_prefix (?q @ [y]) k" by (simp add: k strict_prefix_def)
          from tree_ok_ancestor[OF t _ this] x kn show ?thesis by auto
        qed
        then have y: "y \<in> set dirs" using dirs by blast
        have "k \<in> ?RM \<or> strict_prefix (?q @ [y]) k"
        proof (cases "rest = []")
          case True
          with y nf k show ?thesis by auto
        next
          case False
          then show ?thesis by (simp add: k strict_prefix_def)
        qed
        with y nf True show ?thesis by (auto simp: kept_key_def)
      qed
    qed
    then show "(case x of (k, n) \<Rightarrow> kept_key fs ?R ({} \<union> ?RM) k)
             = (case x of (k, n) \<Rightarrow> kept_key fs (set [?q]) {} k)"
      by (simp add: kn)
  qed
  finally show ?case .
qed

section \<open>The clean-up phase of undo\<close>

lemma lookup_sweep:
  "lookup (sweep fs [q] fs) k =
     (if k = [] then Some Dir
      else if \<not> strict_prefix q k \<or> has_file fs k then lookup fs k else None)"
  by (simp add: sweep_def lookup_filter_key)

lemma has_file_children:
  assumes "tree_ok fs" "names_ok fs" "(p, Dir) \<in> set fs" "has_file fs p"
  shows "children fs p \<noteq> []"
proof -
  from child_has_file[OF assms(1,3)] assms(4)
  obtain k n where k: "(k, n) \<in> set fs" "k \<noteq> []" "butlast k = p" by blast
  then have "k = p @ [last k]" by (metis append_butlast_last_id)
  with k(1) have "last k \<in> set (children fs p)"
    using children_iff[OF assms(2), of "last k" p] by auto
  then show ?thesis by auto
qed

text \<open>
  Claim C10. The clean-up phase of undo is the walk from the target directory. On a tree
  with valid names whose target is a directory: every file is where it was, and no file
  appears; the target directory is still there; nothing outside the target changes; a
  directory strictly below the target is removed exactly when no file lies at or below it,
  that is when it is empty at the moment the walk comes to it, whoever created it; so a
  directory that is empty from the start is removed, and afterwards no directory strictly
  below the target is empty. The body of the loop leaves a directory that lists an entry
  alone.
\<close>

theorem cleanup_removes_empty_directories:
  assumes "tree_ok fs" "names_ok fs" "os_path_isdir fs target_dir"
  shows "(\<forall>q c. lookup (walk_cleanup [Visit target_dir] fs) q = Some (File c)
                 \<longleftrightarrow> lookup fs q = Some (File c))
       \<and> lookup (walk_cleanup [Visit target_dir] fs) (resolve target_dir) = Some Dir
       \<and> (\<forall>q. \<not> strict_prefix (resolve target_dir) q
               \<longrightarrow> lookup (walk_cleanup [Visit target_dir] fs) q = lookup fs q)
       \<and> (\<forall>q. strict_prefix (resolve target_dir) q \<and> lookup fs q = Some Dir
               \<longrightarrow> lookup (walk_cleanup [Visit target_dir] fs) q
                     = (if has_file fs q then Some Dir else None))
       \<and> (\<forall>q. strict_prefix (resolve target_dir) q \<and> lookup fs q = Some Dir
                \<and> children fs q = []
               \<longrightarrow> lookup (walk_cleanup [Visit target_dir] fs) q = None)
       \<and> (\<forall>q. strict_prefix (resolve target_dir) q
                \<and> lookup (walk_cleanup [Visit target_dir] fs) q = Some Dir
               \<longrightarrow> children (walk_cleanup [Visit target_dir] fs) q \<noteq> [])
       \<and> (\<forall>s p names. os_listdir s p = Inr names \<and> names \<noteq> []
               \<longrightarrow> remove_if_empty s p = s)"
proof -
  let ?q = "resolve target_dir"
  let ?fs1 = "walk_cleanup [Visit target_dir] fs"
  from assms(3) have top: "target_dir \<noteq> []" and dir: "lookup fs ?q = Some Dir"
    by (simp_all add: os_path_isdir_def)
  have w: "?fs1 = sweep fs [?q] fs"
    using assms(1,2) top dir by (rule walk_cleanup_sweep)
  note look = lookup_sweep[of fs ?q, folded w]
  have 1: "\<forall>q c. lookup ?fs1 q = Some (File c) \<longleftrightarrow> lookup fs q = Some (File c)"
  proof (intro allI iffI)
    fix q c assume "lookup ?fs1 q = Some (File c)"
    then show "lookup fs q = Some (File c)" unfolding look by (auto split: if_splits)
  next
    fix q c assume a: "lookup fs q = Some (File c)"
    then have "q \<noteq> []" by (auto simp: lookup_def)
    from this a have "(q, File c) \<in> set fs" by (rule lookup_in_set)
    then have "has_file fs q" by (rule has_file_file)
    with a \<open>q \<noteq> []\<close> show "lookup ?fs1 q = Some (File c)" unfolding look by simp
  qed
  have 2: "lookup ?fs1 ?q = Some Dir" unfolding look using dir by simp
  have 3: "\<forall>q. \<not> strict_prefix ?q q \<longrightarrow> lookup ?fs1 q = lookup fs q"
    unfolding look by (simp add: lookup_def)
  have 4: "\<forall>q. strict_prefix ?q q \<and> lookup fs q = Some Dir
               \<longrightarrow> lookup ?fs1 q = (if has_file fs q then Some Dir else None)"
    unfolding look by auto
  have 5: "\<forall>q. strict_prefix ?q q \<and> lookup fs q = Some Dir \<and> children fs q = []
               \<longrightarrow> lookup ?fs1 q = None"
  proof (intro allI impI)
    fix q assume a: "strict_prefix ?q q \<and> lookup fs q = Some Dir \<and> children fs q = []"
    then have "q \<noteq> []" by auto
    with a have "(q, Dir) \<in> set fs" by (auto intro: lookup_in_set)
    with a have "\<not> has_file fs q" using has_file_children[OF assms(1,2)] by blast
    with a \<open>q \<noteq> []\<close> show "lookup ?fs1 q = None" unfolding look by simp
  qed
  have 6: "\<forall>q. strict_prefix ?q q \<and> lookup ?fs1 q = Some Dir \<longrightarrow> children ?fs1 q \<noteq> []"
  proof (intro allI impI)
    fix p assume a: "strict_prefix ?q p \<and> lookup ?fs1 p = Some Dir"
    then have p: "p \<noteq> []" by auto
    from a have hf: "has_file fs p" and lp: "lookup fs p = Some Dir"
      unfolding look using p by (auto split: if_splits)
    from p lp have pd: "(p, Dir) \<in> set fs" by (rule lookup_in_set)
    have "children (filter (\<lambda>(k, n). \<not> strict_prefix ?q k \<or> has_file fs k) fs) p = []
            \<longleftrightarrow> \<not> has_file fs p"
    proof (rule children_filter_empty[OF assms(2) _ assms(1) pd])
      fix k n assume "(k, n) \<in> set fs" "k \<noteq> []" "butlast k = p"
      then have "prefix p k" by (metis prefixeq_butlast)
      with a have "strict_prefix ?q k" by (metis prefix_order.less_le_trans)
      then show "(\<not> strict_prefix ?q k \<or> has_file fs k) = has_file fs k" by simp
    qed
    with hf show "children ?fs1 p \<noteq> []" unfolding w by (simp add: sweep_def)
  qed
  have 7: "\<forall>s p names. os_listdir s p = Inr names \<and> names \<noteq> [] \<longrightarrow> remove_if_empty s p = s"
    by (simp add: remove_if_empty_def)
  from 1 2 3 4 5 6 7 show ?thesis by (intro conjI) assumption+
qed

theorem cleanup_removes_empty_directories_witness:
  "tree_ok cluttered_tree \<and> names_ok cluttered_tree \<and> os_path_isdir cluttered_tree ''T''
   \<and> walk_cleanup [Visit ''T''] cluttered_tree =
       [([''T''], Dir), ([''T'', ''keep''], Dir), ([''T'', ''keep'', ''f.txt''], File ''F''),
        ([''U''], Dir), ([''U'', ''void''], Dir)]
   \<and> lookup (walk_cleanup [Visit ''T''] cluttered_tree) [''T''] = Some Dir
   \<and> lookup (walk_cleanup [Visit ''T''] cluttered_tree) [''T'', ''old''] = None
   \<and> lookup (walk_cleanup [Visit ''T''] cluttered_tree) [''T'', ''keep'', ''f.txt'']
       = Some (File ''F'')"
proof -
  have a: "tree_ok cluttered_tree" by code_simp
  have b: "names_ok cluttered_tree" by code_simp
  have c: "os_path_isdir cluttered_tree ''T''" by code_simp
  have d: "walk_cleanup [Visit ''T''] cluttered_tree =
       [([''T''], Dir), ([''T'', ''keep''], Dir), ([''T'', ''keep'', ''f.txt''], File ''F''),
        ([''U''], Dir), ([''U'', ''void''], Dir)]" by code_simp
  have r: "resolve ''T'' = [''T'']" by code_simp
  have e: "strict_prefix [''T''] [''T'', ''old'']" by (simp add: strict_prefix_def)
  have f: "lookup cluttered_tree [''T'', ''old''] = Some Dir" "children cluttered_tree [''T'', ''old''] = []"
    "lookup cluttered_tree [''T'', ''keep'', ''f.txt''] = Some (File ''F'')"
    by code_simp+
  note t = cleanup_removes_empty_directories[OF a b c, unfolded r]
  from t have 1: "lookup (walk_cleanup [Visit ''T''] cluttered_tree) [''T''] = Some Dir" by blast
  from t e f have 2: "lookup (walk_cleanup [Visit ''T''] cluttered_tree) [''T'', ''old''] = None"
    by blast
  from t f have 3: "lookup (walk_cleanup [Visit ''T''] cluttered_tree) [''T'', ''keep'', ''f.txt'']
       = Some (File ''F'')" by blast
  from a b c d 1 2 3 show ?thesis by (intro conjI) assumption+
qed

section \<open>Organize followed by undo\<close>

text \<open>
  Claim C1 says that organize followed at once by undo restores every file of the source
  directory to its path. The program misses one case. The directory \<open>T\<close> holds a file
  named \<open>images\<close>, with no extension, and \<open>x.jpg\<close>, listed in this order, and is organized
  in place. The file \<open>images\<close> goes to \<open>others/\<close>; then the category folder \<open>T/images\<close> is
  made for \<open>x.jpg\<close>, at the path the file had. Undo moves \<open>x.jpg\<close> back, and then
  \<open>shutil.move\<close> finds a directory at \<open>T/images\<close> and moves the file into it: it ends at
  \<open>T/images/images\<close>, and undo returns \<open>True\<close>.
\<close>

theorem roundtrip_fails_for_category_named_file:
  "tree_ok (disk category_name_start) \<and> names_ok (disk category_name_start)
   \<and> fst (organize_by_type ''t1'' category_name_start ''T'' None) = Inr None
   \<and> disk (snd (organize_by_type ''t1'' category_name_start ''T'' None)) =
       [([''T''], Dir), ([''T'', ''others'', ''images''], File ''notes''),
        ([''T'', ''images'', ''x.jpg''], File ''X''),
        ([''T'', ''others''], Dir), ([''T'', ''images''], Dir)]
   \<and> fst (undo_last_operation ''t2''
            (snd (organize_by_type ''t1'' category_name_start ''T'' None))) = True
   \<and> disk (snd (undo_last_operation ''t2''
            (snd (organize_by_type ''t1'' category_name_start ''T'' None)))) =
       [([''T''], Dir), ([''T'', ''images'', ''images''], File ''notes''),
        ([''T'', ''x.jpg''], File ''X''), ([''T'', ''images''], Dir)]
   \<and> lookup (disk category_name_start) [''T'', ''images''] = Some (File ''notes'')
   \<and> lookup (disk (snd (undo_last_operation ''t2''
            (snd (organize_by_type ''t1'' category_name_start ''T'' None)))))
        [''T'', ''images''] = Some Dir"
  by code_simp

end
